theory Spec2Isabelle
  imports Complex_Main "HOL-Library.AList"
begin

section \<open>Concurrency scheduler: fair-share allocation (main.py, lines 474-525)\<close>

text \<open>
  The worker budget is read from the environment; a value that does not parse, or that
  is not positive, becomes 1. The parsed value is modelled as an optional integer.
\<close>

definition parse_workers :: "int option \<Rightarrow> int" where
  "parse_workers env =
     (let workers = (case env of None \<Rightarrow> 1 | Some w \<Rightarrow> w)
      in if workers \<le> 0 then 1 else workers)"

record schedule =
  combo_workers :: int
  actual_per_combo :: int
  actual_total_workers :: int
  unused_warning :: "int option"

text \<open>
  \<open>workers // num_combos\<close> raises ZeroDivisionError when there is no combination;
  the model returns \<open>None\<close> there. Python's floor division on integers is \<open>div\<close> on
  \<open>int\<close>.
\<close>

definition per_combo_workers :: "int \<Rightarrow> int \<Rightarrow> int" where
  "per_combo_workers workers num_combos = max 1 (workers div num_combos)"

definition fair_share :: "int \<Rightarrow> int \<Rightarrow> schedule option" where
  "fair_share workers num_combos =
     (if num_combos = 0 then None
      else
        let pcw = per_combo_workers workers num_combos;
            (cw, apc) =
               (if pcw * num_combos \<le> workers then (num_combos, pcw)
                else (let cw' = max 1 (workers div pcw)
                      in (cw', max 1 (workers div cw'))));
            total = cw * apc
        in Some \<lparr> combo_workers = cw,
                  actual_per_combo = apc,
                  actual_total_workers = total,
                  unused_warning = (if total < workers then Some (workers - total) else None) \<rparr>)"

section \<open>JSON values\<close>

text \<open>
  Values read from an artifact or parsed from a response are JSON values. A \<open>JDict\<close>
  lists the entries of a dict in insertion order; a lookup is \<open>map_of\<close>. \<open>truthy\<close> is
  Python's truth value.
\<close>

datatype json =
  JNull | JBool bool | JNum real | JStr string | JList "json list" | JDict "(string \<times> json) list"

fun truthy :: "json \<Rightarrow> bool" where
  "truthy JNull = False"
| "truthy (JBool b) = b"
| "truthy (JNum x) = (x \<noteq> 0)"
| "truthy (JStr s) = (s \<noteq> [])"
| "truthy (JList l) = (l \<noteq> [])"
| "truthy (JDict d) = (d \<noteq> [])"

section \<open>Answer extractor (model_api.py)\<close>

text \<open>
  Response texts are lists of characters; one \<open>char\<close> stands for one character of the
  Python string. \<open>isspace\<close> lists the characters below 256 that Python's
  \<open>str.strip()\<close> removes.
\<close>

definition isspace :: "char \<Rightarrow> bool" where
  "isspace c = (c \<in> set [CHR 0x09, CHR 0x0A, CHR 0x0B, CHR 0x0C, CHR 0x0D,
                            CHR 0x1C, CHR 0x1D, CHR 0x1E, CHR 0x1F, CHR 0x20, CHR 0x85, CHR 0xA0])"

definition strip :: "string \<Rightarrow> string" where
  "strip s = rev (dropWhile isspace (rev (dropWhile isspace s)))"

text \<open>
  \<open>estimate_text_tokens\<close> (lines 167-182). \<open>slice_from i\<close> is Python's \<open>text[i:]\<close>
  (a negative index counts from the end and is clamped). \<open>int(len * 0.9)\<close> is
  \<open>(len * 9) div 10\<close>. The shrinking loop of \<open>truncate_last_n_tokens\<close> (lines 813-815)
  does not terminate for every bound (a one-character slice is never shortened), so it
  is a partial function.
\<close>

definition estimate_text_tokens :: "'a list \<Rightarrow> int" where
  "estimate_text_tokens text = (if text = [] then 0 else int (length text) div 4 + 1)"

definition slice_from :: "int \<Rightarrow> 'a list \<Rightarrow> 'a list" where
  "slice_from i text =
     (if 0 \<le> i then drop (nat i) text else drop (length text - nat (- i)) text)"

partial_function (option) shrink_loop :: "'a list \<Rightarrow> int \<Rightarrow> 'a list option" where
  "shrink_loop truncated n_tokens =
     (if estimate_text_tokens truncated > n_tokens \<and> length truncated > 0
      then shrink_loop (slice_from ((int (length truncated) * 9) div 10) truncated) n_tokens
      else Some truncated)"

declare shrink_loop.simps [code]

definition truncate_last_n_tokens :: "'a list \<Rightarrow> int \<Rightarrow> 'a list option" where
  "truncate_last_n_tokens text n_tokens =
     (if text = [] then Some []
      else let total_tokens = estimate_text_tokens text in
        if total_tokens \<le> n_tokens then Some text
        else let target_chars = n_tokens * 4;
                 truncated = slice_from (- target_chars) text
             in shrink_loop truncated n_tokens)"

text \<open>
  \<open>extract_boxed_content\<close> (lines 671-718). \<open>str_find t sub pos\<close> is
  \<open>t.find(sub, pos)\<close>; \<open>match_brace\<close> is the inner \<open>for\<close> loop over the indices
  from \<open>brace_start\<close>, started on the suffix of the text at that index;
  \<open>boxed_loop\<close> is the outer \<open>while True\<close> loop.
\<close>

definition boxed_marker :: string where
  "boxed_marker = CHR 0x5C # ''boxed{''"

fun find_at :: "string \<Rightarrow> string \<Rightarrow> nat \<Rightarrow> nat option" where
  "find_at sub [] i = (if sub = [] then Some i else None)"
| "find_at sub (c # cs) i =
     (if take (length sub) (c # cs) = sub then Some i else find_at sub cs (Suc i))"

definition str_find :: "string \<Rightarrow> string \<Rightarrow> nat \<Rightarrow> nat option" where
  "str_find text sub pos = (if length text < pos then None else find_at sub (drop pos text) pos)"

fun match_brace :: "string \<Rightarrow> nat \<Rightarrow> nat \<Rightarrow> nat option" where
  "match_brace [] i depth = None"
| "match_brace (c # cs) i depth =
     (if c = CHR ''{'' then match_brace cs (Suc i) (Suc depth)
      else if c = CHR ''}'' then
        (if depth = 0 then Some i else match_brace cs (Suc i) (depth - 1))
      else match_brace cs (Suc i) depth)"

lemma take_eq_length_le: "take n xs = ys \<Longrightarrow> length ys \<le> length xs"
  by auto

lemma find_at_bounds: "find_at sub xs i = Some j \<Longrightarrow> i \<le> j \<and> j + length sub \<le> i + length xs"
proof (induction xs arbitrary: i)
  case Nil
  then show ?case by (simp split: if_splits)
next
  case (Cons c cs)
  show ?case
  proof (cases "take (length sub) (c # cs) = sub")
    case True
    with Cons.prems have "j = i" by simp
    moreover from True have "length sub \<le> length (c # cs)" by (rule take_eq_length_le)
    ultimately show ?thesis by simp
  next
    case False
    with Cons.prems have "find_at sub cs (Suc i) = Some j" by simp
    from Cons.IH[OF this] show ?thesis by simp
  qed
qed

lemma str_find_bounds:
  "str_find text sub pos = Some j \<Longrightarrow> pos \<le> j \<and> j + length sub \<le> length text"
  unfolding str_find_def using find_at_bounds[of sub "drop pos text" pos j]
  by (auto split: if_splits)

lemma match_brace_bounds: "match_brace xs i d = Some e \<Longrightarrow> i \<le> e \<and> e < i + length xs"
  by (induction xs arbitrary: i d) (fastforce split: if_splits)+

function boxed_loop :: "string \<Rightarrow> nat \<Rightarrow> string list \<Rightarrow> string list" where
  "boxed_loop text pos all_matches =
     (case str_find text boxed_marker pos of
        None \<Rightarrow> all_matches
      | Some start_idx \<Rightarrow>
          (let brace_start = start_idx + length boxed_marker in
           case match_brace (drop brace_start text) brace_start 0 of
             Some end_idx \<Rightarrow>
               (let content = strip (take (end_idx - brace_start) (drop brace_start text))
                in boxed_loop text (end_idx + 1)
                     (if content \<noteq> [] then all_matches @ [content] else all_matches))
           | None \<Rightarrow> boxed_loop text brace_start all_matches))"
  by pat_completeness auto
termination
  apply (relation "measure (\<lambda>(t, pos, acc). Suc (length t) - pos)")
  subgoal by simp
  subgoal for t pos all_matches start_idx brace_start
    using str_find_bounds[of t boxed_marker pos start_idx]
    by (auto simp: boxed_marker_def)
  subgoal for t pos all_matches start_idx brace_start end_idx content
    using str_find_bounds[of t boxed_marker pos start_idx]
      match_brace_bounds[of "drop brace_start t" brace_start 0 end_idx]
    by (auto simp: boxed_marker_def)
  done

declare boxed_loop.simps [simp del]

definition extract_boxed_content :: "string \<Rightarrow> string option" where
  "extract_boxed_content text =
     (let all_matches = boxed_loop text 0 []
      in if all_matches \<noteq> [] then Some (last all_matches) else None)"

text \<open>
  \<open>extract_answer_from_response\<close> (lines 820-877). \<open>extract_json_from_text\<close> depends
  on a regular expression and on the JSON parser and is a parameter: the dict it
  returns, empty when no object is found. When the \<open>answer\<close> field of that dict is
  truthy and is not a string, \<open>extract_boxed_content\<close> is called on it and raises
  AttributeError (\<open>Inl\<close>). The outer \<open>None\<close> is the shrinking loop that does not return.
\<close>

definition extract_answer_from_response ::
  "(string \<Rightarrow> (string \<times> json) list) \<Rightarrow> string \<Rightarrow> (string + string \<times> bool \<times> string) option" where
  "extract_answer_from_response extract_json_from_text response0 =
     (let original_response = strip response0;
          response = original_response
      in case extract_boxed_content response of
           Some boxed_content \<Rightarrow> Some (Inr (boxed_content, True, original_response))
         | None \<Rightarrow>
            (let result_json = extract_json_from_text response;
                 answer_wrapped = (case map_of result_json ''answer'' of None \<Rightarrow> JStr [] | Some v \<Rightarrow> v);
                 stage2 =
                   (if result_json \<noteq> [] \<and> truthy answer_wrapped then
                      (case answer_wrapped of
                         JStr s \<Rightarrow>
                           (case extract_boxed_content s of
                              Some answer_from_json_box \<Rightarrow>
                                Some (Inr (answer_from_json_box, True, original_response))
                            | None \<Rightarrow>
                                (let answer_cleaned = strip s
                                 in if answer_cleaned \<noteq> []
                                    then Some (Inr (answer_cleaned, False, original_response))
                                    else None))
                       | _ \<Rightarrow> Some (Inl ''AttributeError''))
                    else None)
             in case stage2 of
                  Some r \<Rightarrow> Some r
                | None \<Rightarrow>
                    (case truncate_last_n_tokens original_response 100 of
                       None \<Rightarrow> None
                     | Some truncated_content \<Rightarrow>
                         if truncated_content \<noteq> [] \<and> strip truncated_content \<noteq> []
                         then Some (Inr (truncated_content, False, original_response))
                         else Some (Inr (original_response, False, original_response)))))"

text \<open>Brace-balanced texts, as a grammar: the specification of a marker's content.\<close>

inductive balanced :: "string \<Rightarrow> bool" where
  bal_nil: "balanced []"
| bal_char: "c \<noteq> CHR ''{'' \<Longrightarrow> c \<noteq> CHR ''}'' \<Longrightarrow> balanced xs \<Longrightarrow> balanced (c # xs)"
| bal_nest: "balanced xs \<Longrightarrow> balanced ys \<Longrightarrow> balanced (CHR ''{'' # xs @ CHR ''}'' # ys)"

section \<open>Result records and emptiness of answers (result_utils.py)\<close>

text \<open>
  An output record (the dict written by \<open>convert_to_module2_format\<close> and read back by
  the aggregator) with the keys the aggregator reads: the question id (absent or null
  is the empty string), the profile, the classification fields, and the values under
  the model keys \<open>model\<close>, \<open>model1\<close> .. \<open>model5\<close>. A field of a model entry that is
  \<open>None\<close> is an absent key; \<open>response_time\<close> is a number.
\<close>

record model_entry =
  process :: "json option"
  answer :: "json option"
  model_name :: "json option"
  response_time :: "real option"
  match_gt :: "json option"
  judge_reasoning :: "json option"

datatype slot = NotADict | Entry model_entry

record item =
  question_id :: string
  profile :: "string option"
  category :: "(string \<times> json) list"
  slots :: "(string \<times> slot) list"

definition empty_entry :: model_entry where
  "empty_entry = \<lparr> process = None, answer = None, model_name = None,
                   response_time = None, match_gt = None, judge_reasoning = None \<rparr>"

definition item_get :: "item \<Rightarrow> string \<Rightarrow> slot" where
  "item_get it key = (case map_of (slots it) key of None \<Rightarrow> Entry empty_entry | Some s \<Rightarrow> s)"

definition get_answer :: "model_entry \<Rightarrow> json" where
  "get_answer model_data = (case answer model_data of None \<Rightarrow> JStr [] | Some v \<Rightarrow> v)"

definition name_is :: "model_entry \<Rightarrow> string \<Rightarrow> bool" where
  "name_is model_data mn = (model_name model_data = Some (JStr mn))"

text \<open>\<open>_check_answer_empty\<close> (lines 63-93) and \<open>is_answer_empty\<close> (lines 9-60).\<close>

definition round_value_empty :: "json \<Rightarrow> bool" where
  "round_value_empty round_answer =
     (\<not> truthy round_answer \<or> (case round_answer of JStr s \<Rightarrow> strip s = [] | _ \<Rightarrow> False))"

fun any_round_empty :: "(string \<times> json) list \<Rightarrow> bool" where
  "any_round_empty [] = False"
| "any_round_empty ((round_key, round_answer) # rest) =
     (if round_value_empty round_answer then True else any_round_empty rest)"

definition check_answer_empty :: "json \<Rightarrow> bool" where
  "check_answer_empty answer_value =
     (case answer_value of
        JNull \<Rightarrow> True
      | JDict d \<Rightarrow> (if d = [] then True else any_round_empty d)
      | JStr s \<Rightarrow> strip s = []
      | _ \<Rightarrow> False)"

definition possible_keys :: "string list" where
  "possible_keys = [''model'', ''model1'', ''model2'', ''model3'', ''model4'', ''model5'']"

definition str_truthy :: "string option \<Rightarrow> bool" where
  "str_truthy s = (case s of None \<Rightarrow> False | Some v \<Rightarrow> v \<noteq> [])"

fun scan_possible_keys :: "item \<Rightarrow> string option \<Rightarrow> string option \<Rightarrow> string list \<Rightarrow> bool" where
  "scan_possible_keys it mk mn [] = True"
| "scan_possible_keys it mk mn (key # keys) =
     (if str_truthy mk \<and> Some key = mk then scan_possible_keys it mk mn keys
      else case item_get it key of
             NotADict \<Rightarrow> scan_possible_keys it mk mn keys
           | Entry model_data \<Rightarrow>
               (case mn of
                  Some (c # cs) \<Rightarrow>
                    if name_is model_data (c # cs) then check_answer_empty (get_answer model_data)
                    else scan_possible_keys it mk mn keys
                | _ \<Rightarrow>
                    if \<not> check_answer_empty (get_answer model_data) then False
                    else scan_possible_keys it mk mn keys))"

definition is_answer_empty :: "item \<Rightarrow> string option \<Rightarrow> string option \<Rightarrow> bool" where
  "is_answer_empty it mk mn =
     (let found =
        (case mk of
           Some (k # ks) \<Rightarrow>
             (case item_get it (k # ks) of
                NotADict \<Rightarrow> False
              | Entry model_data \<Rightarrow>
                  if str_truthy mn \<and> \<not> name_is model_data ((case mn of None \<Rightarrow> [] | Some v \<Rightarrow> v)) then False
                  else \<not> check_answer_empty (get_answer model_data))
         | _ \<Rightarrow> False)
      in if found then False else scan_possible_keys it mk mn possible_keys)"

section \<open>Statistics aggregator (statistics.py, calculate_output_statistics)\<close>

text \<open>
  \<open>count_by_rounds\<close> is the scoring-mode switch read from the configuration. A pair
  \<open>(count, correct)\<close> is a denominator and a numerator. \<open>_model_entry_is_valid\<close> (lines
  222-232), \<open>_find_model_entry\<close> (lines 313-334), \<open>_count_item\<close> (lines 234-310),
  \<open>_deduplicate_results\<close> (lines 349-399); the two ordered dicts of the deduplication
  are association lists updated in place. \<open>total_counts\<close> is lines 407-515,
  \<open>by_model\<close> and \<open>by_profile\<close> are the sums of lines 521-564 for one key of the
  breakdown.
\<close>

definition model_entry_is_valid :: "slot \<Rightarrow> bool" where
  "model_entry_is_valid entry =
     (case entry of
        NotADict \<Rightarrow> False
      | Entry e \<Rightarrow>
          if (case response_time e of None \<Rightarrow> 0 | Some t \<Rightarrow> t) > 0 then True
          else if answer e \<notin> {Some (JStr []), None, Some JNull, Some (JDict [])} then True
          else if process e \<notin> {Some (JStr []), None, Some JNull, Some (JDict [])} then True
          else False)"

fun find_in_keys :: "item \<Rightarrow> string \<Rightarrow> string list \<Rightarrow> (string \<times> model_entry) option" where
  "find_in_keys it mn [] = None"
| "find_in_keys it mn (model_key # keys) =
     (case map_of (slots it) model_key of
        None \<Rightarrow> find_in_keys it mn keys
      | Some entry \<Rightarrow>
          (case entry of
             Entry e \<Rightarrow>
               if model_entry_is_valid entry \<and> name_is e mn then Some (model_key, e)
               else find_in_keys it mn keys
           | NotADict \<Rightarrow> find_in_keys it mn keys))"

definition find_model_entry :: "item \<Rightarrow> string \<Rightarrow> (string \<times> model_entry) option" where
  "find_model_entry it mn = find_in_keys it mn possible_keys"

definition is_round_empty :: "json \<Rightarrow> bool" where
  "is_round_empty round_answer =
     (case round_answer of
        JNull \<Rightarrow> True
      | JStr s \<Rightarrow> strip s = []
      | JDict d \<Rightarrow> d = []
      | _ \<Rightarrow> False)"

fun count_rounds :: "(string \<times> json) list \<Rightarrow> (string \<times> json) list \<Rightarrow> nat \<times> nat" where
  "count_rounds [] answer_value = (0, 0)"
| "count_rounds ((round_key, round_correct) # rest) answer_value =
     (let round_answer = (case map_of answer_value round_key of None \<Rightarrow> JStr [] | Some v \<Rightarrow> v);
          (count, correct) = count_rounds rest answer_value
      in if \<not> is_round_empty round_answer
         then (count + 1, if truthy round_correct then correct + 1 else correct)
         else (count, correct))"

fun has_any_answer :: "(string \<times> json) list \<Rightarrow> bool" where
  "has_any_answer [] = False"
| "has_any_answer ((round_key, round_answer) # rest) =
     (case round_answer of
        JNull \<Rightarrow> has_any_answer rest
      | JStr s \<Rightarrow> if strip s \<noteq> [] then True else has_any_answer rest
      | _ \<Rightarrow> True)"

definition all_values :: "(string \<times> json) list \<Rightarrow> bool" where
  "all_values mg = (if mg \<noteq> [] then list_all (\<lambda>(k, v). truthy v) mg else False)"

definition count_item :: "bool \<Rightarrow> item \<Rightarrow> string \<Rightarrow> model_entry \<Rightarrow> string option \<Rightarrow> nat \<times> nat" where
  "count_item count_by_rounds it model_key entry mn =
     (case (case match_gt entry of None \<Rightarrow> JBool False | Some v \<Rightarrow> v) of
        JDict mg \<Rightarrow>
          (let answer_value = (case answer entry of None \<Rightarrow> JDict [] | Some v \<Rightarrow> v)
           in if count_by_rounds then
                (case answer_value of
                   JDict ad \<Rightarrow> count_rounds mg ad
                 | _ \<Rightarrow> (0, 0))
              else
                (if (case answer_value of
                       JDict ad \<Rightarrow> \<not> has_any_answer ad
                     | _ \<Rightarrow> str_truthy mn \<and> is_answer_empty it (Some model_key) mn)
                 then (0, 0)
                 else (1, if all_values mg then 1 else 0)))
      | other \<Rightarrow>
          if str_truthy mn \<and> is_answer_empty it (Some model_key) mn then (0, 0)
          else (1, if truthy other then 1 else 0))"

fun has_valid_answer :: "string list \<Rightarrow> item \<Rightarrow> bool" where
  "has_valid_answer [] it = False"
| "has_valid_answer (mn # enabled_models) it =
     (case find_model_entry it mn of
        None \<Rightarrow> has_valid_answer enabled_models it
      | Some (model_key, entry) \<Rightarrow>
          if \<not> is_answer_empty it (Some model_key) (Some mn) then True
          else has_valid_answer enabled_models it)"

definition dedup_step ::
  "string list \<Rightarrow> (string \<times> item) list \<times> (string \<times> bool) list \<Rightarrow> item
     \<Rightarrow> (string \<times> item) list \<times> (string \<times> bool) list" where
  "dedup_step enabled_models st it =
     (let (question_id_to_item, question_id_has_valid_answer) = st;
          item_id = question_id it
      in if item_id = [] then st
         else if map_of question_id_has_valid_answer item_id = Some True then st
         else
           let hv = has_valid_answer enabled_models it
           in if map_of question_id_to_item item_id = None
              then (AList.update item_id it question_id_to_item,
                    AList.update item_id hv question_id_has_valid_answer)
              else if hv
                then (AList.update item_id it question_id_to_item,
                      AList.update item_id True question_id_has_valid_answer)
                else st)"

definition deduplicate_results :: "string list \<Rightarrow> item list \<Rightarrow> item list" where
  "deduplicate_results enabled_models results_list =
     map snd (fst (foldl (dedup_step enabled_models) ([], []) results_list))"

definition add_counts :: "nat \<times> nat \<Rightarrow> nat \<times> nat \<Rightarrow> nat \<times> nat" where
  "add_counts a b = (fst a + fst b, snd a + snd b)"

definition model_count :: "bool \<Rightarrow> item \<Rightarrow> string \<Rightarrow> nat \<times> nat" where
  "model_count count_by_rounds it mn =
     (case find_model_entry it mn of
        None \<Rightarrow> (0, 0)
      | Some (model_key, entry) \<Rightarrow> count_item count_by_rounds it model_key entry (Some mn))"

definition item_counts :: "bool \<Rightarrow> string list \<Rightarrow> item \<Rightarrow> nat \<times> nat" where
  "item_counts count_by_rounds enabled_models it =
     foldl (\<lambda>acc mn. add_counts acc (model_count count_by_rounds it mn)) (0, 0) enabled_models"

definition sum_items :: "(item \<Rightarrow> nat \<times> nat) \<Rightarrow> item list \<Rightarrow> nat \<times> nat" where
  "sum_items f its = foldl (\<lambda>acc it. add_counts acc (f it)) (0, 0) its"

definition entry_correct :: "model_entry \<Rightarrow> bool" where
  "entry_correct entry =
     (case (case match_gt entry of None \<Rightarrow> JBool False | Some v \<Rightarrow> v) of
        JDict mg \<Rightarrow> all_values mg
      | other \<Rightarrow> truthy other)"

fun question_result :: "string list \<Rightarrow> item \<Rightarrow> bool \<times> bool" where
  "question_result [] it = (False, False)"
| "question_result (mn # enabled_models) it =
     (case find_model_entry it mn of
        None \<Rightarrow> question_result enabled_models it
      | Some (model_key, entry) \<Rightarrow>
          if is_answer_empty it (Some model_key) (Some mn) then question_result enabled_models it
          else if entry_correct entry then (True, True)
          else (True, snd (question_result enabled_models it)))"

definition first_pass_step :: "string list \<Rightarrow> (string \<times> item) list \<Rightarrow> item \<Rightarrow> (string \<times> item) list" where
  "first_pass_step enabled_models question_id_to_item it =
     (let item_id = question_id it
      in if item_id = [] then question_id_to_item
         else
           let hv = has_valid_answer enabled_models it
           in case map_of question_id_to_item item_id of
                None \<Rightarrow> AList.update item_id it question_id_to_item
              | Some old_item \<Rightarrow>
                  if \<not> has_valid_answer enabled_models old_item \<and> hv
                  then AList.update item_id it question_id_to_item
                  else question_id_to_item)"

definition second_pass_step ::
  "string list \<Rightarrow> string list \<times> nat \<times> nat \<Rightarrow> string \<times> item \<Rightarrow> string list \<times> nat \<times> nat" where
  "second_pass_step enabled_models st p =
     (let (seen_question_ids, total_count, total_correct) = st;
          (item_id, it) = p
      in if item_id \<in> set seen_question_ids then st
         else
           let (hv, question_is_correct) = question_result enabled_models it
           in if \<not> hv then st
              else (item_id # seen_question_ids, total_count + 1,
                    if question_is_correct then total_correct + 1 else total_correct))"

definition total_counts :: "bool \<Rightarrow> string list \<Rightarrow> item list \<Rightarrow> nat \<times> nat" where
  "total_counts count_by_rounds enabled_models results =
     (if count_by_rounds then
        sum_items (\<lambda>it. if question_id it = [] then (0, 0)
                         else item_counts count_by_rounds enabled_models it)
          (deduplicate_results enabled_models results)
      else
        snd (foldl (second_pass_step enabled_models) ([], 0, 0)
               (foldl (first_pass_step enabled_models) [] results)))"

definition by_model :: "bool \<Rightarrow> string list \<Rightarrow> item list \<Rightarrow> string \<Rightarrow> nat \<times> nat" where
  "by_model count_by_rounds enabled_models results mn =
     sum_items (\<lambda>it. model_count count_by_rounds it mn) (deduplicate_results enabled_models results)"

definition by_profile :: "bool \<Rightarrow> string list \<Rightarrow> item list \<Rightarrow> string \<Rightarrow> nat \<times> nat" where
  "by_profile count_by_rounds enabled_models results p =
     sum_items (\<lambda>it. if profile it \<noteq> Some p then (0, 0)
                      else item_counts count_by_rounds enabled_models it)
       (deduplicate_results enabled_models results)"

text \<open>
  The per-classification breakdown (lines 566-609) for one field and one value. Only
  the fields of \<open>category_fields\<close> are read and only truthy values are collected; the
  values are collected in a set, so a non-empty list or dict under one of these fields
  raises TypeError (\<open>Inl\<close>) and the function returns nothing. \<open>Inr None\<close> is the
  absence of an entry for the field and the value. \<open>py_eq\<close> is Python's \<open>==\<close> of a JSON
  value with a number, a truth value or a string, where \<open>True == 1\<close> and \<open>False == 0\<close>.
\<close>

definition category_fields :: "string list" where
  "category_fields = [''question_type'', ''fintype'', ''image_type'', ''scenario'', ''capability'',
                      ''difficulty'', ''source'', ''language'']"

fun hashable :: "json \<Rightarrow> bool" where
  "hashable (JList l) = False"
| "hashable (JDict d) = False"
| "hashable _ = True"

fun py_eq :: "json \<Rightarrow> json \<Rightarrow> bool" where
  "py_eq (JBool a) (JNum x) = (x = (if a then 1 else 0))"
| "py_eq (JNum x) (JBool a) = (x = (if a then 1 else 0))"
| "py_eq a b = (a = b)"

definition item_field_is :: "item \<Rightarrow> string \<Rightarrow> json \<Rightarrow> bool" where
  "item_field_is it category_field category_value =
     (case map_of (category it) category_field of None \<Rightarrow> False | Some v \<Rightarrow> py_eq v category_value)"

definition unhashable_tag :: "item \<Rightarrow> bool" where
  "unhashable_tag it =
     list_ex (\<lambda>field. case map_of (category it) field of
                         None \<Rightarrow> False
                       | Some v \<Rightarrow> truthy v \<and> \<not> hashable v) category_fields"

definition by_category ::
  "bool \<Rightarrow> string list \<Rightarrow> item list \<Rightarrow> string \<Rightarrow> json \<Rightarrow> string + (nat \<times> nat) option" where
  "by_category count_by_rounds enabled_models results category_field category_value =
     (let deduplicated_results = deduplicate_results enabled_models results
      in if list_ex unhashable_tag deduplicated_results then Inl ''TypeError''
         else if category_field \<in> set category_fields \<and> truthy category_value \<and>
                 hashable category_value \<and>
                 list_ex (\<lambda>it. item_field_is it category_field category_value) deduplicated_results
         then Inr (Some (sum_items
                (\<lambda>it. if \<not> item_field_is it category_field category_value then (0, 0)
                      else item_counts count_by_rounds enabled_models it)
                deduplicated_results))
         else Inr None)"

text \<open>
  The emptiness of the specification: an answer is blank when it is missing, null or a
  string without a non-whitespace character; a unit is blank when its answer is blank
  or is a per-round map whose entries are all blank; a record is blank when every model
  entry it carries is.
\<close>

definition answer_blank :: "json option \<Rightarrow> bool" where
  "answer_blank v =
     (case v of None \<Rightarrow> True | Some JNull \<Rightarrow> True | Some (JStr s) \<Rightarrow> strip s = [] | _ \<Rightarrow> False)"

definition unit_blank :: "model_entry \<Rightarrow> bool" where
  "unit_blank e =
     (case answer e of
        Some (JDict ad) \<Rightarrow> list_all (\<lambda>(k, v). answer_blank (Some v)) ad
      | v \<Rightarrow> answer_blank v)"

definition all_units_blank :: "item \<Rightarrow> bool" where
  "all_units_blank it =
     list_all (\<lambda>key. case item_get it key of Entry e \<Rightarrow> unit_blank e | NotADict \<Rightarrow> True) possible_keys"

text \<open>
  The first record of a question id that has a non-empty answer for an enabled model,
  and the first record of that id when there is none; the invariant of the
  deduplication loop.
\<close>

definition first_valid :: "string list \<Rightarrow> string \<Rightarrow> item list \<Rightarrow> item option" where
  "first_valid ms q rs =
     (case find (\<lambda>r. question_id r = q \<and> has_valid_answer ms r) rs of
        Some r \<Rightarrow> Some r
      | None \<Rightarrow> find (\<lambda>r. question_id r = q) rs)"

definition dedup_inv :: "string list \<Rightarrow> item list \<Rightarrow> (string \<times> item) list \<times> (string \<times> bool) list \<Rightarrow> bool" where
  "dedup_inv ms rs st =
     (distinct (map fst (fst st)) \<and>
      (\<forall>q. map_of (fst st) q = (if q = [] then None else first_valid ms q rs)) \<and>
      (\<forall>q. map_of (snd st) q =
            (if q = [] \<or> find (\<lambda>r. question_id r = q) rs = None then None
             else Some (find (\<lambda>r. question_id r = q \<and> has_valid_answer ms r) rs \<noteq> None))))"

text \<open>
  Example records of one question for the model \<open>m\<close>: the record the converter writes
  after a failed evaluation (empty answer), an answered record, and a two-round record
  whose second round is empty.
\<close>

definition example_empty_record :: item where
  "example_empty_record =
     \<lparr> question_id = ''q1'', profile = Some ''expert'',
       category = [(''difficulty'', JStr ''hard'')],
       slots = [(''model'',
         Entry \<lparr> process = Some (JStr []), answer = Some (JStr []),
                 model_name = Some (JStr ''m''), response_time = Some 0,
                 match_gt = Some (JBool False), judge_reasoning = Some (JStr []) \<rparr>)] \<rparr>"

definition example_answered_record :: item where
  "example_answered_record =
     \<lparr> question_id = ''q1'', profile = Some ''expert'',
       category = [(''difficulty'', JStr ''hard'')],
       slots = [(''model'',
         Entry \<lparr> process = Some (JStr ''because''), answer = Some (JStr ''C''),
                 model_name = Some (JStr ''m''), response_time = Some 2,
                 match_gt = Some (JBool True), judge_reasoning = Some (JStr ''same choice'') \<rparr>)] \<rparr>"

definition example_partial_entry :: model_entry where
  "example_partial_entry =
     \<lparr> process = Some (JDict [(''round1'', JStr ''because''), (''round2'', JStr [])]),
       answer = Some (JDict [(''round1'', JStr ''A''), (''round2'', JStr [])]),
       model_name = Some (JStr ''m''), response_time = Some 2,
       match_gt = Some (JDict [(''round1'', JBool True), (''round2'', JBool False)]),
       judge_reasoning = Some (JDict [(''round1'', JStr ''same choice''), (''round2'', JStr [])]) \<rparr>"

definition example_partial_record :: item where
  "example_partial_record =
     \<lparr> question_id = ''q1'', profile = Some ''expert'',
       category = [(''difficulty'', JStr ''hard'')],
       slots = [(''model'', Entry example_partial_entry)] \<rparr>"


text \<open>
  A two-round record whose answer map has no entry for the second round, and the record
  of a single-round evaluation whose model answered with an empty text.
\<close>

definition example_missing_entry :: model_entry where
  "example_missing_entry =
     \<lparr> process = Some (JDict [(''round1'', JStr ''because'')]),
       answer = Some (JDict [(''round1'', JStr ''A'')]),
       model_name = Some (JStr ''m''), response_time = Some 2,
       match_gt = Some (JDict [(''round1'', JBool True), (''round2'', JBool False)]),
       judge_reasoning = Some (JDict [(''round1'', JStr ''same choice'')]) \<rparr>"

definition example_missing_record :: item where
  "example_missing_record =
     \<lparr> question_id = ''q1'', profile = Some ''expert'',
       category = [(''difficulty'', JStr ''hard'')],
       slots = [(''model'', Entry example_missing_entry)] \<rparr>"

definition example_blank_record :: item where
  "example_blank_record =
     \<lparr> question_id = ''q5'', profile = Some ''expert'',
       category = [(''question_type'', JStr []), (''image_type'', JStr [])],
       slots = [(''model'',
         Entry \<lparr> process = Some (JStr []), answer = Some (JStr []),
                 model_name = Some (JStr ''m''), response_time = Some 1,
                 match_gt = Some (JBool False), judge_reasoning = Some (JStr ''no answer'') \<rparr>)] \<rparr>"

section \<open>Conversation builder and task executor (evaluator.py, model_api.py)\<close>

text \<open>
  A turn has a role and a content: a list of parts (text, media reference) or a plain
  string. \<open>has_image\<close> is the test of lines 306-317 and 381-385 of evaluator.py (a user
  turn whose content list holds an \<open>image_url\<close> part).
\<close>

datatype part = ImageUrl string | TextPart string

datatype msg_content = Parts "part list" | Plain string

record message =
  role :: string
  content :: msg_content

fun is_image :: "part \<Rightarrow> bool" where
  "is_image (ImageUrl u) = True"
| "is_image (TextPart t) = False"

definition has_image :: "message \<Rightarrow> bool" where
  "has_image msg =
     (role msg = ''user'' \<and> (case content msg of Parts ps \<Rightarrow> list_ex is_image ps | Plain s \<Rightarrow> False))"

definition is_http :: "string \<Rightarrow> bool" where
  "is_http p = (take 7 p = ''http://'' \<or> take 8 p = ''https://'')"

text \<open>
  The loop that turns image paths into parts (evaluator.py 337-355, model_api.py
  389-408): a URL is used as it is, an existing file is encoded, any other path is
  skipped. The file system and the encoder are parameters.
\<close>

definition image_parts :: "(string \<Rightarrow> bool) \<Rightarrow> (string \<Rightarrow> string) \<Rightarrow> string list \<Rightarrow> part list" where
  "image_parts file_exists encode image_paths =
     concat (map (\<lambda>image_path.
        if is_http image_path then [ImageUrl image_path]
        else if file_exists image_path then [ImageUrl (encode image_path)]
        else []) image_paths)"

text \<open>
  The check of evaluator.py 94-117 on the parsed image paths: with a missing local file
  the item fails, or the missing paths are dropped when \<open>skip_missing_images\<close> is set.
\<close>

definition check_images :: "(string \<Rightarrow> bool) \<Rightarrow> bool \<Rightarrow> string list \<Rightarrow> string + string list" where
  "check_images file_exists skip_missing_images image_paths =
     (let missing_local_images =
            filter (\<lambda>p. \<not> is_http p \<and> \<not> file_exists p) image_paths
      in if missing_local_images \<noteq> [] then
           (if skip_missing_images
            then Inr (filter (\<lambda>p. p \<notin> set missing_local_images) image_paths)
            else Inl ''missing images'')
         else Inr image_paths)"

text \<open>
  \<open>call_model_api\<close> with a message list (model_api.py 349-413): when the first message
  is a user turn without an image and image paths are given, the images are added to
  that message, in place.
\<close>

definition prepare_messages ::
  "(string \<Rightarrow> bool) \<Rightarrow> (string \<Rightarrow> string) \<Rightarrow> message list \<Rightarrow> string list option \<Rightarrow> message list" where
  "prepare_messages file_exists encode messages image_paths =
     (case messages of
        [] \<Rightarrow> []
      | first_msg # rest \<Rightarrow>
          (case image_paths of
             None \<Rightarrow> messages
           | Some paths \<Rightarrow>
               if role first_msg = ''user'' \<and> paths \<noteq> [] then
                 (let user_content =
                        (case content first_msg of Plain s \<Rightarrow> [TextPart s] | Parts ps \<Rightarrow> ps)
                  in if \<not> list_ex is_image user_content
                     then first_msg\<lparr>content := Parts (user_content @ image_parts file_exists encode paths)\<rparr> # rest
                     else messages)
               else messages))"

text \<open>
  The collaborators of the task executor. \<open>network\<close> is the request of
  \<open>call_model_api\<close> after its retries, \<open>judge\<close> is \<open>judge_answer\<close>; \<open>Inl\<close> is the text
  of the exception raised when the retries are exhausted. \<open>get_prompt\<close> and the
  extractor are the other calls inside the \<open>try\<close> block.
\<close>

record round_input =
  round_key :: string
  round_question :: string
  round_answer :: json
  question_text :: string

record collaborators =
  file_exists :: "string \<Rightarrow> bool"
  encode :: "string \<Rightarrow> string"
  encode_api :: "string \<Rightarrow> string"
  get_prompt :: "string \<Rightarrow> round_input \<Rightarrow> string + string"
  network :: "string \<Rightarrow> message list \<Rightarrow> string + (string \<times> real \<times> json)"
  extractor :: "string \<Rightarrow> string \<times> bool \<times> string"
  judge :: "string \<Rightarrow> round_input \<Rightarrow> string + (bool \<times> string \<times> real)"
  build_process_value :: "string \<Rightarrow> json option \<Rightarrow> string"

text \<open>
  The dict stored for one model and one round (or for a single-round item):
  \<open>result_data\<close> of lines 488-506 and 634-648, or the dict of the \<open>except\<close> branch
  (lines 515-524 and 652-661). An absent key is \<open>None\<close>.
\<close>

record round_result =
  rr_model_name :: string
  error :: "string option"
  is_correct :: bool
  model_answer :: string
  extracted_answer :: string
  answer_for_judge :: string
  reasoning :: "string option"
  rr_response_time :: real
  judge_time :: real
  raw_response :: "json option"
  rr_conversation_history :: "message list option"

definition error_result :: "string \<Rightarrow> string \<Rightarrow> round_result" where
  "error_result mn e =
     \<lparr> rr_model_name = mn, error = Some e, is_correct = False, model_answer = [],
       extracted_answer = [], answer_for_judge = [], reasoning = None,
       rr_response_time = 0, judge_time = 0, raw_response = None,
       rr_conversation_history = None \<rparr>"

text \<open>\<open>eval_single_model\<close> (lines 574-661); the prompt is built before the \<open>try\<close>.\<close>

definition single_message ::
  "collaborators \<Rightarrow> string \<Rightarrow> string list \<Rightarrow> message list" where
  "single_message c prompt image_paths =
     [\<lparr> role = ''user'',
        content = Parts (image_parts (file_exists c) (encode_api c) image_paths @ [TextPart prompt]) \<rparr>]"

definition eval_single_model ::
  "collaborators \<Rightarrow> string \<Rightarrow> string list \<Rightarrow> round_input \<Rightarrow> string \<Rightarrow> round_result" where
  "eval_single_model c prompt image_paths q mn =
     (case network c mn (single_message c prompt image_paths) of
        Inl e \<Rightarrow> error_result mn e
      | Inr (answer_text, rt, raw) \<Rightarrow>
          (let (extracted, is_from_box, original_response) = extractor c answer_text;
               for_judge = (if \<not> is_from_box then original_response else extracted)
           in case judge c for_judge q of
                Inl e \<Rightarrow> error_result mn e
              | Inr (verdict, why, jt) \<Rightarrow>
                  \<lparr> rr_model_name = mn, error = None, is_correct = verdict,
                    model_answer = answer_text, extracted_answer = extracted,
                    answer_for_judge = for_judge, reasoning = Some why,
                    rr_response_time = rt, judge_time = jt,
                    raw_response = Some raw, rr_conversation_history = None \<rparr>))"

text \<open>
  The multi-round loop (lines 261-524). The state holds \<open>rounds_data\<close>, the
  conversation history of every model, the running totals, and the list of the message
  lists handed to \<open>call_model_api\<close> (the requests issued, latest first).
  The first message of a request is the same object as the first message of the
  history, so what \<open>call_model_api\<close> adds to it is seen in the history too.
\<close>

record multi_state =
  rounds_data :: "(string \<times> (string \<times> round_result) list) list"
  conversation_history :: "(string \<times> message list) list"
  all_rounds_correct :: bool
  total_response_time :: real
  total_judge_time :: real
  requests :: "(string \<times> message list) list"

definition store_result :: "string \<Rightarrow> string \<Rightarrow> round_result \<Rightarrow> multi_state \<Rightarrow> multi_state" where
  "store_result rk mn r st =
     st\<lparr>rounds_data :=
          AList.update rk
            (AList.update mn r (case map_of (rounds_data st) rk of None \<Rightarrow> [] | Some d \<Rightarrow> d))
            (rounds_data st)\<rparr>"

definition round_failed :: "string \<Rightarrow> string \<Rightarrow> string \<Rightarrow> multi_state \<Rightarrow> multi_state" where
  "round_failed rk mn e st =
     store_result rk mn (error_result mn e) (st\<lparr>all_rounds_correct := False\<rparr>)"

definition history_of :: "multi_state \<Rightarrow> string \<Rightarrow> message list" where
  "history_of st mn = (case map_of (conversation_history st) mn of None \<Rightarrow> [] | Some h \<Rightarrow> h)"

definition brief_answer :: "string \<Rightarrow> string \<Rightarrow> string" where
  "brief_answer extracted original_response =
     (if extracted \<noteq> [] \<and> strip extracted \<noteq> [] then extracted
      else if length original_response > 300
           then drop (length original_response - 300) original_response
           else original_response)"

definition round_body ::
  "collaborators \<Rightarrow> string \<Rightarrow> string list \<Rightarrow> round_input \<Rightarrow> multi_state \<Rightarrow> string \<Rightarrow> multi_state" where
  "round_body c prof image_paths q st0 mn =
     (let rk = round_key q;
          st = (if map_of (rounds_data st0) rk = None
                then st0\<lparr>rounds_data := AList.update rk [] (rounds_data st0)\<rparr> else st0)
      in case get_prompt c prof q of
           Inl e \<Rightarrow> round_failed rk mn e st
         | Inr prompt \<Rightarrow>
            (let history = history_of st mn;
                 has_image_in_history = list_ex has_image history;
                 user_content =
                   (if \<not> has_image_in_history \<and> image_paths \<noteq> []
                    then image_parts (file_exists c) (encode c) image_paths else [])
                   @ [TextPart prompt];
                 current_user_msg = \<lparr> role = ''user'', content = Parts user_content \<rparr>;
                 messages = prepare_messages (file_exists c) (encode_api c)
                              (history @ [current_user_msg])
                              (if image_paths \<noteq> [] then Some image_paths else None);
                 history1 = take (length history) messages;
                 current_user_msg1 = last messages;
                 st1 = st\<lparr>conversation_history := AList.update mn history1 (conversation_history st),
                          requests := (mn, messages) # requests st\<rparr>
             in case network c mn messages of
                  Inl e \<Rightarrow> round_failed rk mn e st1
                | Inr (answer_text, rt, raw) \<Rightarrow>
                   (let (extracted, is_from_box, original_response) = extractor c answer_text;
                        has_image_in_conversation_history = list_ex has_image history1;
                        simplified_user_content =
                          (if \<not> has_image_in_conversation_history \<and> image_paths \<noteq> []
                           then (case content current_user_msg1 of
                                   Parts ps \<Rightarrow> filter is_image ps | Plain s \<Rightarrow> [])
                           else [])
                          @ [TextPart (question_text q)];
                        history2 = history1 @
                          [\<lparr> role = ''user'', content = Parts simplified_user_content \<rparr>,
                           \<lparr> role = ''assistant'',
                             content = Plain (brief_answer extracted original_response) \<rparr>];
                        for_judge = (if \<not> is_from_box then original_response else extracted);
                        st2 = st1\<lparr>conversation_history :=
                                    AList.update mn history2 (conversation_history st1),
                                  total_response_time := total_response_time st1 + rt\<rparr>
                    in case judge c for_judge q of
                         Inl e \<Rightarrow> round_failed rk mn e st2
                       | Inr (verdict, why, jt) \<Rightarrow>
                           store_result rk mn
                             \<lparr> rr_model_name = mn, error = None, is_correct = verdict,
                               model_answer = answer_text, extracted_answer = extracted,
                               answer_for_judge = for_judge, reasoning = Some why,
                               rr_response_time = rt, judge_time = jt,
                               raw_response = Some raw,
                               rr_conversation_history = Some messages \<rparr>
                             (st2\<lparr>total_judge_time := total_judge_time st2 + jt,
                                  all_rounds_correct := (all_rounds_correct st2 \<and> verdict)\<rparr>))))"

definition initial_state :: "string list \<Rightarrow> multi_state" where
  "initial_state enabled_models =
     \<lparr> rounds_data = [], conversation_history = map (\<lambda>mn. (mn, [])) enabled_models,
       all_rounds_correct = True, total_response_time = 0, total_judge_time = 0,
       requests = [] \<rparr>"

definition run_rounds ::
  "collaborators \<Rightarrow> string \<Rightarrow> string list \<Rightarrow> round_input list \<Rightarrow> string list \<Rightarrow> multi_state" where
  "run_rounds c prof image_paths round_inputs enabled_models =
     foldl (\<lambda>st q. foldl (round_body c prof image_paths q) st enabled_models)
       (initial_state enabled_models) round_inputs"

text \<open>
  The summary of one model (lines 527-561): the rounds that have a result, in round
  order, and the conjunction of their verdicts.
\<close>

record round_item = round_result +
  round_name :: string
  ri_question :: json
  ri_answer :: json

record multi_result =
  mr_model_name :: string
  rounds :: "round_item list"
  mr_all_rounds_correct :: bool
  mr_total_response_time :: real
  mr_total_judge_time :: real
  mr_is_correct :: bool

definition make_round_item :: "round_input \<Rightarrow> round_result \<Rightarrow> round_item" where
  "make_round_item q r =
     round_result.extend r
       \<lparr> round_name = round_key q, ri_question = JStr (round_question q),
         ri_answer = round_answer q \<rparr>"

fun collect_rounds ::
  "(string \<times> (string \<times> round_result) list) list \<Rightarrow> string \<Rightarrow> round_input list
     \<Rightarrow> round_item list \<times> bool" where
  "collect_rounds rd mn [] = ([], True)"
| "collect_rounds rd mn (q # qs) =
     (let (model_rounds, model_all_correct) = collect_rounds rd mn qs
      in case map_of rd (round_key q) of
           None \<Rightarrow> (model_rounds, model_all_correct)
         | Some per_model \<Rightarrow>
             (case map_of per_model mn of
                None \<Rightarrow> (model_rounds, model_all_correct)
              | Some round_result \<Rightarrow>
                  (make_round_item q round_result # model_rounds,
                   is_correct round_result \<and> model_all_correct)))"

definition summarize_model :: "multi_state \<Rightarrow> round_input list \<Rightarrow> string \<Rightarrow> multi_result" where
  "summarize_model st round_inputs mn =
     (let (model_rounds, model_all_correct) = collect_rounds (rounds_data st) mn round_inputs
      in \<lparr> mr_model_name = mn, rounds = model_rounds,
           mr_all_rounds_correct = model_all_correct,
           mr_total_response_time = total_response_time st,
           mr_total_judge_time = total_judge_time st,
           mr_is_correct = model_all_correct \<rparr>)"

datatype model_data = Single round_result | Multi multi_result


section \<open>Result converter (result_converter.py, convert_to_module2_format)\<close>

text \<open>
  The result of \<open>evaluate_single_item\<close>: the question id, the multi-round flag, the
  classification fields, and for every profile the dict of the models' results. The
  accessors below read a model's dict with the defaults of the converter.
\<close>

record eval_result =
  er_question_id :: string
  is_multi_round :: bool
  er_fields :: "(string \<times> json) list"
  profiles :: "(string \<times> (string \<times> model_data) list) list"

definition md_has_error :: "model_data \<Rightarrow> bool" where
  "md_has_error md = (case md of Single r \<Rightarrow> error r \<noteq> None | Multi m \<Rightarrow> False)"

definition md_rounds :: "model_data \<Rightarrow> round_item list" where
  "md_rounds md = (case md of Single r \<Rightarrow> [] | Multi m \<Rightarrow> rounds m)"

definition md_extracted_answer :: "model_data \<Rightarrow> string" where
  "md_extracted_answer md = (case md of Single r \<Rightarrow> extracted_answer r | Multi m \<Rightarrow> [])"

definition md_model_answer :: "model_data \<Rightarrow> string" where
  "md_model_answer md = (case md of Single r \<Rightarrow> model_answer r | Multi m \<Rightarrow> [])"

definition md_raw_response :: "model_data \<Rightarrow> json option" where
  "md_raw_response md = (case md of Single r \<Rightarrow> raw_response r | Multi m \<Rightarrow> None)"

definition md_correct :: "model_data \<Rightarrow> bool" where
  "md_correct md =
     (case md of Single r \<Rightarrow> is_correct r | Multi m \<Rightarrow> mr_is_correct m \<or> mr_all_rounds_correct m)"

definition md_reasoning :: "model_data \<Rightarrow> string" where
  "md_reasoning md =
     (case md of
        Single r \<Rightarrow> (case reasoning r of None \<Rightarrow> [] | Some w \<Rightarrow> w)
      | Multi m \<Rightarrow> [])"

definition md_response_time :: "bool \<Rightarrow> model_data \<Rightarrow> real" where
  "md_response_time multi md =
     (case md of
        Single r \<Rightarrow> rr_response_time r
      | Multi m \<Rightarrow> if multi then mr_total_response_time m else 0)"

text \<open>
  The key of a round (lines 64-77): the \<open>round\<close> field, and when it is empty the first
  key of a question dict, or the first key of the round's own dict that contains
  \<open>round\<close>, which is the key \<open>round\<close> itself.
\<close>

definition round_key_of :: "round_item \<Rightarrow> string" where
  "round_key_of rd =
     (if round_name rd \<noteq> [] then round_name rd
      else case ri_question rd of
             JDict ((k, v) # rest) \<Rightarrow> k
           | JStr s \<Rightarrow> ''round''
           | _ \<Rightarrow> [])"

record round_dicts =
  answer_dict :: "(string \<times> json) list"
  process_dict :: "(string \<times> json) list"
  match_gt_dict :: "(string \<times> json) list"
  judge_reasoning_dict :: "(string \<times> json) list"

definition convert_round ::
  "(string \<Rightarrow> json option \<Rightarrow> string) \<Rightarrow> round_dicts \<Rightarrow> round_item \<Rightarrow> round_dicts" where
  "convert_round bpv ds rd =
     (let rk = round_key_of rd
      in if rk \<noteq> [] then
           (let (ra, rp, rc, rr) =
                  (if error rd \<noteq> None then (JStr [], JStr [], False, JStr [])
                   else (if extracted_answer rd \<noteq> [] then JStr (extracted_answer rd)
                         else ri_answer rd,
                         JStr (bpv (model_answer rd) (raw_response rd)),
                         is_correct rd,
                         JStr (case reasoning rd of None \<Rightarrow> [] | Some w \<Rightarrow> w)))
            in \<lparr> answer_dict = AList.update rk ra (answer_dict ds),
                 process_dict = AList.update rk rp (process_dict ds),
                 match_gt_dict = AList.update rk (JBool rc) (match_gt_dict ds),
                 judge_reasoning_dict = AList.update rk rr (judge_reasoning_dict ds) \<rparr>)
         else ds)"

definition agreement_with_gt :: "bool \<Rightarrow> json \<Rightarrow> nat" where
  "agreement_with_gt multi match_gt_value =
     (case match_gt_value of
        JDict mg \<Rightarrow> if multi then (if all_values mg then 1 else 0)
                    else (if truthy match_gt_value then 1 else 0)
      | other \<Rightarrow> if truthy other then 1 else 0)"

definition module2_category :: "(string \<times> json) list \<Rightarrow> (string \<times> json) list" where
  "module2_category fs =
     [(''question_type'', case map_of fs ''question_type'' of None \<Rightarrow> JStr [] | Some v \<Rightarrow> v),
      (''image_type'', case map_of fs ''image_type'' of None \<Rightarrow> JStr [] | Some v \<Rightarrow> v)]
     @ concat (map (\<lambda>field. case map_of fs field of None \<Rightarrow> [] | Some v \<Rightarrow> [(field, v)])
          [''scenario'', ''capability'', ''difficulty'', ''source'', ''language''])"

definition convert_to_module2_format ::
  "(string \<Rightarrow> json option \<Rightarrow> string) \<Rightarrow> eval_result \<Rightarrow> string \<Rightarrow> string \<Rightarrow> (item \<times> nat) option" where
  "convert_to_module2_format bpv result mn prof =
     (case map_of (profiles result) prof of
        None \<Rightarrow> None
      | Some models \<Rightarrow>
         (case map_of models mn of
            None \<Rightarrow> None
          | Some md \<Rightarrow>
             (let rounds_list = md_rounds md;
                  (model_answer_value, process_value, match_gt_value, judge_reasoning_value) =
                    (if is_multi_round result \<and> rounds_list \<noteq> [] then
                       (let ds = foldl (convert_round bpv)
                                   \<lparr> answer_dict = [], process_dict = [], match_gt_dict = [],
                                     judge_reasoning_dict = [] \<rparr> rounds_list
                        in if answer_dict ds \<noteq> [] then
                             (JDict (answer_dict ds), JDict (process_dict ds),
                              JDict (match_gt_dict ds), JDict (judge_reasoning_dict ds))
                           else
                             (let last_round = last rounds_list
                              in (if extracted_answer last_round \<noteq> []
                                  then JStr (extracted_answer last_round) else ri_answer last_round,
                                  JStr (model_answer last_round),
                                  JBool (is_correct last_round),
                                  JStr (case reasoning last_round of None \<Rightarrow> [] | Some w \<Rightarrow> w))))
                     else if md_has_error md then (JStr [], JStr [], JBool False, JStr [])
                     else (JStr (md_extracted_answer md),
                           JStr (bpv (md_model_answer md) (md_raw_response md)),
                           JBool (md_correct md),
                           JStr (md_reasoning md)));
                  module2_item =
                    \<lparr> question_id = er_question_id result, profile = Some prof,
                      category = module2_category (er_fields result),
                      slots = [(''model'',
                        Entry \<lparr> process = Some process_value, answer = Some model_answer_value,
                                model_name = Some (JStr mn),
                                response_time = Some (md_response_time (is_multi_round result) md),
                                match_gt = Some match_gt_value,
                                judge_reasoning = Some judge_reasoning_value \<rparr>)] \<rparr>
              in Some (module2_item, agreement_with_gt (is_multi_round result) match_gt_value))))"

section \<open>Statistics over evaluation results (statistics.py, calculate_statistics)\<close>

text \<open>
  The contribution of one result to the counters of one profile and one model (lines
  51-81), and the counters \<open>profile_stats["models"][model_name]\<close> of lines 48-84.
\<close>

definition raw_count :: "bool \<Rightarrow> eval_result \<Rightarrow> string \<Rightarrow> string \<Rightarrow> nat \<times> nat" where
  "raw_count count_by_rounds result prof mn =
     (case (case map_of (profiles result) prof of None \<Rightarrow> None | Some models \<Rightarrow> map_of models mn) of
        None \<Rightarrow> (0, 0)
      | Some md \<Rightarrow>
          if count_by_rounds \<and> is_multi_round result \<and> md_rounds md \<noteq> [] then
            (length (md_rounds md), length (filter is_correct (md_rounds md)))
          else (1, if (case md of Single r \<Rightarrow> is_correct r | Multi m \<Rightarrow> mr_is_correct m) then 1 else 0))"

definition profile_model_stats ::
  "bool \<Rightarrow> eval_result list \<Rightarrow> string \<Rightarrow> string \<Rightarrow> nat \<times> nat" where
  "profile_model_stats count_by_rounds results prof mn =
     foldl (\<lambda>acc result. add_counts acc (raw_count count_by_rounds result prof mn)) (0, 0) results"

section \<open>Resume: the records of an existing artifact (main.py, lines 342-396)\<close>

record resume_state =
  seen_ids :: "string set"
  rs_question_id_to_item :: "(string \<times> item) list"
  rs_has_valid_answer :: "(string \<times> bool) list"
  completed_ids :: "string set"
  removed_duplicate_count :: nat
  empty_answer_count :: int

definition resume_step :: "string \<Rightarrow> resume_state \<Rightarrow> item \<Rightarrow> resume_state" where
  "resume_step mn st it =
     (let item_id = question_id it
      in if item_id = [] then st
         else if map_of (rs_has_valid_answer st) item_id = Some True
           then st\<lparr>removed_duplicate_count := removed_duplicate_count st + 1\<rparr>
         else
           let is_empty = is_answer_empty it None (Some mn)
           in if item_id \<notin> seen_ids st then
                (if \<not> is_empty then
                   st\<lparr>seen_ids := insert item_id (seen_ids st),
                      rs_question_id_to_item := AList.update item_id it (rs_question_id_to_item st),
                      rs_has_valid_answer := AList.update item_id True (rs_has_valid_answer st),
                      completed_ids := insert item_id (completed_ids st)\<rparr>
                 else
                   st\<lparr>seen_ids := insert item_id (seen_ids st),
                      rs_question_id_to_item := AList.update item_id it (rs_question_id_to_item st),
                      rs_has_valid_answer := AList.update item_id False (rs_has_valid_answer st),
                      empty_answer_count := empty_answer_count st + 1\<rparr>)
              else
                (if \<not> is_empty then
                   st\<lparr>removed_duplicate_count := removed_duplicate_count st + 1,
                      rs_question_id_to_item := AList.update item_id it (rs_question_id_to_item st),
                      rs_has_valid_answer := AList.update item_id True (rs_has_valid_answer st),
                      completed_ids := insert item_id (completed_ids st),
                      empty_answer_count := empty_answer_count st - 1\<rparr>
                 else st\<lparr>removed_duplicate_count := removed_duplicate_count st + 1\<rparr>))"

definition resume_scan :: "string \<Rightarrow> item list \<Rightarrow> resume_state" where
  "resume_scan mn all_items =
     foldl (resume_step mn)
       \<lparr> seen_ids = {}, rs_question_id_to_item = [], rs_has_valid_answer = [],
         completed_ids = {}, removed_duplicate_count = 0, empty_answer_count = 0 \<rparr> all_items"

text \<open>
  The result stored for a round and a model, and the entry the converter writes for a
  failed single-round evaluation.
\<close>

definition stored :: "multi_state \<Rightarrow> string \<Rightarrow> string \<Rightarrow> round_result option" where
  "stored st rk mn = (case map_of (rounds_data st) rk of None \<Rightarrow> None | Some d \<Rightarrow> map_of d mn)"


text \<open>
  Example collaborators whose judge raises after its retries, an example question, and
  the evaluation results of a single-round item and of a two-round item whose second
  round failed.
\<close>

definition judge_down :: collaborators where
  "judge_down =
     \<lparr> file_exists = (\<lambda>p. True), encode = (\<lambda>p. p), encode_api = (\<lambda>p. p),
       get_prompt = (\<lambda>prof q. Inr (round_question q)),
       network = (\<lambda>mn msgs. Inr (''the answer is C'', 1, JNull)),
       extractor = (\<lambda>a. (''C'', True, a)),
       judge = (\<lambda>a q. Inl ''judge unavailable''),
       build_process_value = (\<lambda>a raw. a) \<rparr>"

definition example_question :: round_input where
  "example_question =
     \<lparr> round_key = ''round1'', round_question = ''which one?'', round_answer = JStr ''C'',
       question_text = ''which one?'' \<rparr>"

definition example_second_question :: round_input where
  "example_second_question =
     \<lparr> round_key = ''round2'', round_question = ''and then?'', round_answer = JStr ''D'',
       question_text = ''and then?'' \<rparr>"

definition example_failed_result :: eval_result where
  "example_failed_result =
     \<lparr> er_question_id = ''q1'', is_multi_round = False, er_fields = [],
       profiles = [(''expert'',
         [(''m'', Single (eval_single_model judge_down ''which one?'' [] example_question ''m''))])] \<rparr>"

definition example_good_round :: round_result where
  "example_good_round =
     \<lparr> rr_model_name = ''m'', error = None, is_correct = True, model_answer = ''the answer is C'',
       extracted_answer = ''C'', answer_for_judge = ''C'', reasoning = Some ''same choice'',
       rr_response_time = 1, judge_time = 1, raw_response = Some JNull,
       rr_conversation_history = None \<rparr>"

definition example_half_failed :: multi_result where
  "example_half_failed =
     \<lparr> mr_model_name = ''m'',
       rounds = [make_round_item example_question example_good_round,
                 make_round_item example_second_question (error_result ''m'' ''judge unavailable'')],
       mr_all_rounds_correct = False, mr_total_response_time = 2, mr_total_judge_time = 1,
       mr_is_correct = False \<rparr>"

definition example_half_failed_result :: eval_result where
  "example_half_failed_result =
     \<lparr> er_question_id = ''q2'', is_multi_round = True, er_fields = [],
       profiles = [(''expert'', [(''m'', Multi example_half_failed)])] \<rparr>"

definition example_half_failed_record :: item where
  "example_half_failed_record =
     \<lparr> question_id = ''q2'', profile = Some ''expert'',
       category = [(''question_type'', JStr []), (''image_type'', JStr [])],
       slots = [(''model'',
         Entry \<lparr> process = Some (JDict [(''round1'', JStr ''the answer is C''), (''round2'', JStr [])]),
                 answer = Some (JDict [(''round1'', JStr ''C''), (''round2'', JStr [])]),
                 model_name = Some (JStr ''m''), response_time = Some 2,
                 match_gt = Some (JDict [(''round1'', JBool True), (''round2'', JBool False)]),
                 judge_reasoning = Some (JDict [(''round1'', JStr ''same choice''), (''round2'', JStr [])]) \<rparr>)] \<rparr>"

definition three_round_entry :: model_entry where
  "three_round_entry =
     \<lparr> process = Some (JDict []),
       answer = Some (JDict [(''round1'', JStr ''A''), (''round2'', JStr ''C''), (''round3'', JStr ''A'')]),
       model_name = Some (JStr ''m''), response_time = Some 3,
       match_gt = Some (JDict [(''round1'', JBool True), (''round2'', JBool False), (''round3'', JBool True)]),
       judge_reasoning = Some (JDict []) \<rparr>"

text \<open>
  A three-round entry whose verdicts are all true, example collaborators whose judge
  accepts every answer, and collaborators whose judge accepts the first round and raises
  on every later one, with the result of a two-round run.
\<close>

definition three_true_entry :: model_entry where
  "three_true_entry =
     \<lparr> process = Some (JDict []),
       answer = Some (JDict [(''round1'', JStr ''A''), (''round2'', JStr ''C''), (''round3'', JStr ''A'')]),
       model_name = Some (JStr ''m''), response_time = Some 3,
       match_gt = Some (JDict [(''round1'', JBool True), (''round2'', JBool True), (''round3'', JBool True)]),
       judge_reasoning = Some (JDict []) \<rparr>"

definition judge_fine :: collaborators where
  "judge_fine =
     \<lparr> file_exists = (\<lambda>p. True), encode = (\<lambda>p. p), encode_api = (\<lambda>p. p),
       get_prompt = (\<lambda>prof q. Inr (round_question q)),
       network = (\<lambda>mn msgs. Inr (''the answer is C'', 1, JNull)),
       extractor = (\<lambda>a. (''C'', True, a)),
       judge = (\<lambda>a q. Inr (True, ''same choice'', 1)),
       build_process_value = (\<lambda>a raw. a) \<rparr>"

definition judge_down_later :: collaborators where
  "judge_down_later =
     \<lparr> file_exists = (\<lambda>p. True), encode = (\<lambda>p. p), encode_api = (\<lambda>p. p),
       get_prompt = (\<lambda>prof q. Inr (round_question q)),
       network = (\<lambda>mn msgs. Inr (''the answer is C'', 1, JNull)),
       extractor = (\<lambda>a. (''C'', True, a)),
       judge = (\<lambda>a q. if round_key q = ''round1'' then Inr (True, ''same choice'', 1)
                        else Inl ''judge unavailable''),
       build_process_value = (\<lambda>a raw. a) \<rparr>"


text \<open>
  Example collaborators whose model answers with an empty text, which the judge marks
  as wrong, and the result of a single-round item evaluated with them.
\<close>

definition silent_model :: collaborators where
  "silent_model =
     \<lparr> file_exists = (\<lambda>p. True), encode = (\<lambda>p. p), encode_api = (\<lambda>p. p),
       get_prompt = (\<lambda>prof q. Inr (round_question q)),
       network = (\<lambda>mn msgs. Inr ([], 1, JNull)),
       extractor = (\<lambda>a. ([], False, [])),
       judge = (\<lambda>a q. Inr (False, ''no answer'', 1)),
       build_process_value = (\<lambda>a raw. a) \<rparr>"

definition example_blank_result :: eval_result where
  "example_blank_result =
     \<lparr> er_question_id = ''q5'', is_multi_round = False, er_fields = [],
       profiles = [(''expert'',
         [(''m'', Single (eval_single_model silent_model ''which one?'' [] example_question ''m''))])] \<rparr>"

text \<open>
  A turn carries media when its content list holds an image part. A history is in order
  for the image paths of the item when no turn after the first carries media and, if
  there is a first turn, it is a user turn with media exactly when the item has image
  paths.
\<close>

definition carries_image :: "message \<Rightarrow> bool" where
  "carries_image msg = (case content msg of Parts ps \<Rightarrow> list_ex is_image ps | Plain s \<Rightarrow> False)"

definition media_first_only :: "message list \<Rightarrow> bool" where
  "media_first_only msgs =
     (length (filter carries_image msgs) \<le> 1 \<and> \<not> list_ex carries_image (tl msgs))"

definition hist_ok :: "string list \<Rightarrow> message list \<Rightarrow> bool" where
  "hist_ok image_paths h =
     (\<not> list_ex carries_image (tl h) \<and>
      (h \<noteq> [] \<longrightarrow> (if image_paths = [] then \<not> carries_image (hd h) else has_image (hd h))))"

definition media_inv :: "string list \<Rightarrow> multi_state \<Rightarrow> bool" where
  "media_inv image_paths st =
     (list_all (\<lambda>(mn, h). hist_ok image_paths h) (conversation_history st) \<and>
      list_all (\<lambda>(mn, msgs). media_first_only msgs \<and> msgs \<noteq> [] \<and>
                  (image_paths \<noteq> [] \<longrightarrow> has_image (hd msgs))) (requests st))"

definition user_turn :: "part list \<Rightarrow> message" where
  "user_turn ps = \<lparr> role = ''user'', content = Parts ps \<rparr>"

section \<open>Persistence of the output artifacts (result_converter.py 230-302, main.py 640-731)\<close>

text \<open>
  The file system is a map from paths to contents. The operating system decides how
  each primitive ends: writing the temporary file succeeds, fails after \<open>n\<close> characters
  reached the file, or fails before the file is created; \<open>Path.replace\<close> succeeds or
  raises, and so does \<open>Path.unlink\<close>. \<open>Path.replace\<close> is the rename of the operating
  system: it is one step, the target holds the old content before it and the content of
  the temporary file after it.
\<close>

type_synonym fs = "string \<Rightarrow> string option"

datatype write_outcome = Written | Write_fails nat | Open_fails

record os =
  on_write :: write_outcome
  on_replace :: bool
  on_unlink :: bool

text \<open>
  \<open>output_file.with_suffix(output_file.suffix + '.tmp')\<close>: the last suffix of the name is
  replaced by itself followed by \<open>.tmp\<close>, so the temporary path is the path followed by
  \<open>.tmp\<close>. \<open>parent\<close> is the directory part of a path.
\<close>

definition temp_file_of :: "string \<Rightarrow> string" where
  "temp_file_of output_file = output_file @ ''.tmp''"

definition parent :: "string \<Rightarrow> string" where
  "parent p = rev (dropWhile (\<lambda>c. c \<noteq> CHR ''/'') (rev p))"

text \<open>
  The block shared by every rewrite (result_converter.py 285-300, main.py 415-426,
  694-707, 718-729): write the data to the temporary file, replace the target by it;
  when either step raises, remove the temporary file if it exists and raise again. The
  result is whether the block returned without an exception, and the file systems
  after the write and after the second step, in this order.
\<close>

definition write_file :: "write_outcome \<Rightarrow> string \<Rightarrow> string \<Rightarrow> fs \<Rightarrow> fs" where
  "write_file outcome path data f =
     (case outcome of
        Written \<Rightarrow> f(path \<mapsto> data)
      | Write_fails n \<Rightarrow> f(path \<mapsto> take n data)
      | Open_fails \<Rightarrow> f)"

definition atomic_write :: "os \<Rightarrow> string \<Rightarrow> string \<Rightarrow> fs \<Rightarrow> bool \<times> fs list" where
  "atomic_write sys output_file data f =
     (let temp_file = temp_file_of output_file;
          f1 = write_file (on_write sys) temp_file data f
      in if on_write sys = Written \<and> on_replace sys
         then (True, [f1, f1(output_file := f1 temp_file, temp_file := None)])
         else (False, [f1, if f1 temp_file \<noteq> None \<and> on_unlink sys
                           then f1(temp_file := None) else f1]))"

text \<open>
  \<open>json.load\<close>, \<open>json.dump\<close> with indentation, \<open>json.dumps\<close> and
  \<open>calculate_output_statistics\<close> rendered as a JSON value are parameters; \<open>None\<close> is an
  exception. \<open>readlines\<close> is the line splitting of a text file and \<open>st_size\<close> the size
  in bytes of a content.
\<close>

record codec =
  json_load :: "string \<Rightarrow> json option"
  json_dump :: "json \<Rightarrow> string"
  json_dumps :: "json \<Rightarrow> string"
  statistics_of :: "json \<Rightarrow> json option"
  readlines :: "string \<Rightarrow> string list"
  st_size :: "string \<Rightarrow> nat"

record flush_state =
  files :: fs
  result_buffers :: "string \<times> string \<Rightarrow> json list option"
  error_log :: "string list"

text \<open>
  The document that \<open>flush_json_buffer\<close> writes (lines 259-282): the stored document, or
  the empty one when the file is missing or empty, with the buffer appended to its
  results and the statistics computed again. \<open>Inl\<close> is an exception of this part.
\<close>

definition dict_get :: "(string \<times> json) list \<Rightarrow> string \<Rightarrow> json \<Rightarrow> json" where
  "dict_get kv k dflt = (case map_of kv k of None \<Rightarrow> dflt | Some v \<Rightarrow> v)"

definition merged_document :: "codec \<Rightarrow> string option \<Rightarrow> json list \<Rightarrow> string + json" where
  "merged_document cd on_disk buffer =
     (case (case on_disk of
              None \<Rightarrow> Some (JDict [(''statistics'', JDict []), (''results'', JList [])])
            | Some s \<Rightarrow> if s = [] then Some (JDict [(''statistics'', JDict []), (''results'', JList [])])
                        else json_load cd s) of
        None \<Rightarrow> Inl ''the stored document cannot be read''
      | Some (JDict existing_data) \<Rightarrow>
          (case dict_get existing_data ''results'' (JList []) of
             JList existing_results \<Rightarrow>
               (let final_results = existing_results @ buffer
                in case statistics_of cd (JList final_results) of
                     None \<Rightarrow> Inl ''the statistics cannot be computed''
                   | Some stats \<Rightarrow>
                       Inr (JDict (AList.update ''statistics'' stats
                              (AList.update ''results'' (JList final_results) existing_data))))
           | _ \<Rightarrow> Inl ''the stored results are not a list'')
      | Some _ \<Rightarrow> Inl ''the stored document is not an object'')"

text \<open>
  \<open>flush_json_buffer\<close>. A missing key of \<open>output_files\<close> raises before the \<open>try\<close> block
  (\<open>Inl\<close>); every other exception is caught and logged, by the inner handler and the
  outer one when it comes from the write. The buffer is set to the empty list only
  after the replacement. The second component is the list of the file systems after
  each step that touches a file.
\<close>

definition flush_json_buffer ::
  "os \<Rightarrow> codec \<Rightarrow> string \<Rightarrow> string \<Rightarrow> (string \<times> string \<Rightarrow> string option) \<Rightarrow> flush_state
     \<Rightarrow> string + flush_state \<times> fs list" where
  "flush_json_buffer sys cd mn prof output_files st =
     (let key = (mn, prof)
      in case result_buffers st key of
           None \<Rightarrow> Inr (st, [])
         | Some buffer \<Rightarrow>
             if buffer = [] then Inr (st, [])
             else (case output_files key of
                     None \<Rightarrow> Inl ''KeyError''
                   | Some output_file \<Rightarrow>
                       (case merged_document cd (files st output_file) buffer of
                          Inl e \<Rightarrow> Inr (st\<lparr>error_log := error_log st @ [e]\<rparr>, [])
                        | Inr existing_data \<Rightarrow>
                            (let (ok, steps) =
                                   atomic_write sys output_file (json_dump cd existing_data) (files st)
                             in if ok
                                then Inr (st\<lparr>files := last steps,
                                             result_buffers := (result_buffers st)(key \<mapsto> [])\<rparr>, steps)
                                else Inr (st\<lparr>files := last steps,
                                             error_log := error_log st @
                                               [''writing the temporary file failed'',
                                                ''batch save failed'']\<rparr>, steps)))))"

text \<open>
  The final update of the statistics of one artifact (main.py 647-731). In the JSON
  format the document is read, its statistics are computed again and it is rewritten.
  In the JSONL format the lines after the first are parsed, a line that does not parse
  is skipped, an item that is not an object raises in the duplicate count, a file
  larger than 1024 bytes without any result is left alone, and the replacement is the
  statistics line followed by one line per result.
\<close>

definition jsonl_results :: "codec \<Rightarrow> string \<Rightarrow> json list" where
  "jsonl_results cd on_disk =
     concat (map (\<lambda>line. if strip line = [] then []
                          else (case json_load cd (strip line) of None \<Rightarrow> [] | Some v \<Rightarrow> [v]))
                 (tl (readlines cd on_disk)))"

fun is_dict :: "json \<Rightarrow> bool" where
  "is_dict (JDict kv) = True"
| "is_dict _ = False"

datatype replacement = Raise string | Skip | Replace string

definition final_replacement :: "codec \<Rightarrow> bool \<Rightarrow> string option \<Rightarrow> replacement" where
  "final_replacement cd jsonl on_disk =
     (case on_disk of
        None \<Rightarrow> Raise ''FileNotFoundError''
      | Some s \<Rightarrow>
          if jsonl then
            (let all_results = jsonl_results cd s
             in if \<not> list_all is_dict all_results then Raise ''AttributeError''
                else if all_results = [] \<and> st_size cd s > 1024 then Skip
                else (case statistics_of cd (JList all_results) of
                        None \<Rightarrow> Raise ''the statistics cannot be computed''
                      | Some stats \<Rightarrow>
                          Replace (json_dumps cd (JDict [(''statistics'', stats)]) @ [CHR 0x0A] @
                                   concat (map (\<lambda>it. json_dumps cd it @ [CHR 0x0A]) all_results))))
          else
            (case json_load cd s of
               None \<Rightarrow> Raise ''JSONDecodeError''
             | Some (JDict data) \<Rightarrow>
                 (case statistics_of cd (dict_get data ''results'' (JList [])) of
                    None \<Rightarrow> Raise ''the statistics cannot be computed''
                  | Some stats \<Rightarrow> Replace (json_dump cd (JDict (AList.update ''statistics'' stats data))))
             | Some _ \<Rightarrow> Raise ''AttributeError''))"

definition update_statistics ::
  "os \<Rightarrow> codec \<Rightarrow> bool \<Rightarrow> string \<Rightarrow> flush_state \<Rightarrow> flush_state \<times> fs list" where
  "update_statistics sys cd jsonl output_file st =
     (case final_replacement cd jsonl (files st output_file) of
        Raise e \<Rightarrow> (st\<lparr>error_log := error_log st @ [e]\<rparr>, [])
      | Skip \<Rightarrow> (st, [])
      | Replace data \<Rightarrow>
          (let (ok, steps) = atomic_write sys output_file data (files st)
           in if ok then (st\<lparr>files := last steps\<rparr>, steps)
              else (st\<lparr>files := last steps,
                       error_log := error_log st @
                         [''writing the temporary file failed'',
                          ''updating the statistics failed'']\<rparr>, steps)))"

text \<open>Example: a stored document, a buffer of one result, and a disk that fills up.\<close>

definition example_codec :: codec where
  "example_codec =
     \<lparr> json_load = (\<lambda>s. if s = ''old'' then Some (JDict [(''results'', JList [JStr ''r1''])]) else None),
       json_dump = (\<lambda>d. case d of JDict kv \<Rightarrow>
                            (case dict_get kv ''results'' JNull of
                               JList rs \<Rightarrow> ''results:'' @ concat (map (\<lambda>r. case r of JStr s \<Rightarrow> s | _ \<Rightarrow> ''?'') rs)
                             | _ \<Rightarrow> ''?'')
                        | _ \<Rightarrow> ''?''),
       json_dumps = (\<lambda>d. ''?''),
       statistics_of = (\<lambda>rs. Some JNull),
       readlines = (\<lambda>s. [s]),
       st_size = length \<rparr>"

definition example_state :: flush_state where
  "example_state =
     \<lparr> files = [''out.json'' \<mapsto> ''old''],
       result_buffers = [(''m'', ''expert'') \<mapsto> [JStr ''r2'']],
       error_log = [] \<rparr>"

definition disk_full :: os where
  "disk_full = \<lparr> on_write = Write_fails 5, on_replace = True, on_unlink = True \<rparr>"

definition disk_fine :: os where
  "disk_fine = \<lparr> on_write = Written, on_replace = True, on_unlink = True \<rparr>"

section \<open>Lemmas about the answer extractor\<close>

lemma match_brace_balanced:
  "balanced xs \<Longrightarrow> match_brace (xs @ rest) i d = match_brace rest (i + length xs) d"
proof (induction xs arbitrary: rest i d rule: balanced.induct)
  case bal_nil
  show ?case by simp
next
  case (bal_char c xs)
  then show ?case by simp
next
  case (bal_nest xs ys)
  have "match_brace ((CHR ''{'' # xs @ CHR ''}'' # ys) @ rest) i d
        = match_brace (xs @ (CHR ''}'' # ys @ rest)) (Suc i) (Suc d)" by simp
  also have "\<dots> = match_brace (CHR ''}'' # ys @ rest) (Suc i + length xs) (Suc d)"
    by (rule bal_nest.IH(1))
  also have "\<dots> = match_brace (ys @ rest) (Suc (Suc i + length xs)) d" by simp
  also have "\<dots> = match_brace rest (Suc (Suc i + length xs) + length ys) d"
    by (rule bal_nest.IH(2))
  finally show ?case by (simp add: add.assoc)
qed

lemma match_brace_close:
  "balanced body \<Longrightarrow> match_brace (body @ CHR ''}'' # rest) i 0 = Some (i + length body)"
  by (simp add: match_brace_balanced)

lemma boxed_loop_none:
  "str_find text boxed_marker pos = None \<Longrightarrow> boxed_loop text pos acc = acc"
  by (subst boxed_loop.simps) simp

lemma boxed_loop_step:
  assumes "str_find text boxed_marker pos = Some s"
    and "drop (s + length boxed_marker) text = body @ CHR ''}'' # rest"
    and "balanced body"
  shows "boxed_loop text pos acc =
           boxed_loop text (s + length boxed_marker + length body + 1)
             (if strip body \<noteq> [] then acc @ [strip body] else acc)"
  using assms
  by (subst boxed_loop.simps) (simp add: match_brace_close Let_def)

lemma find_at_shift: "find_at sub xs (k + i) = map_option (\<lambda>j. k + j) (find_at sub xs i)"
  by (induction xs arbitrary: i) (auto simp flip: add_Suc_right)

lemma str_find_shift:
  "str_find (pre @ text) sub (length pre + pos) = map_option (\<lambda>j. length pre + j) (str_find text sub pos)"
  by (simp add: str_find_def find_at_shift)

lemma match_brace_shift:
  "match_brace xs (k + i) d = map_option (\<lambda>j. k + j) (match_brace xs i d)"
  by (induction xs arbitrary: i d) (auto simp flip: add_Suc_right)

lemma boxed_loop_shift:
  "boxed_loop (pre @ t) (length pre + pos) acc = boxed_loop t pos acc"
proof (induction t pos acc rule: boxed_loop.induct)
  case (1 t pos all_matches)
  show ?case
  proof (cases "str_find t boxed_marker pos")
    case None
    then show ?thesis
      by (simp add: boxed_loop_none str_find_shift)
  next
    case (Some s)
    note S = Some
    define bs where "bs = s + length boxed_marker"
    have f: "str_find (pre @ t) boxed_marker (length pre + pos) = Some (length pre + s)"
      by (simp add: str_find_shift S)
    have d: "drop (length pre + s + length boxed_marker) (pre @ t) = drop bs t"
      by (simp add: bs_def add.assoc)
    show ?thesis
    proof (cases "match_brace (drop bs t) bs 0")
      case None
      have m: "match_brace (drop bs t) (length pre + bs) 0 = None"
        by (simp add: match_brace_shift None)
      have "boxed_loop (pre @ t) (length pre + pos) all_matches
            = boxed_loop (pre @ t) (length pre + bs) all_matches"
        using f d m by (subst boxed_loop.simps) (simp add: Let_def bs_def add.assoc)
      also have "\<dots> = boxed_loop t bs all_matches"
        by (rule "1.IH"(1)[OF S bs_def None])
      also have "\<dots> = boxed_loop t pos all_matches"
        using S None by (subst (2) boxed_loop.simps) (simp add: Let_def bs_def)
      finally show ?thesis .
    next
      case (Some e)
      define content where "content = strip (take (e - bs) (drop bs t))"
      define acc' where "acc' = (if content \<noteq> [] then all_matches @ [content] else all_matches)"
      have m: "match_brace (drop bs t) (length pre + bs) 0 = Some (length pre + e)"
        by (simp add: match_brace_shift Some)
      have "boxed_loop (pre @ t) (length pre + pos) all_matches
            = boxed_loop (pre @ t) (length pre + (e + 1)) acc'"
        using f d m unfolding acc'_def content_def
        by (subst boxed_loop.simps) (simp add: Let_def bs_def add.assoc)
      also have "\<dots> = boxed_loop t (e + 1) acc'"
        unfolding acc'_def by (rule "1.IH"(2)[OF S bs_def Some content_def])
      also have "\<dots> = boxed_loop t pos all_matches"
        using S Some unfolding acc'_def content_def
        by (subst (2) boxed_loop.simps) (simp add: Let_def bs_def)
      finally show ?thesis .
    qed
  qed
qed

lemma boxed_loop_append: "boxed_loop t pos (a @ b) = a @ boxed_loop t pos b"
proof (induction t pos b rule: boxed_loop.induct)
  case (1 t pos all_matches)
  show ?case
  proof (cases "str_find t boxed_marker pos")
    case None
    then show ?thesis by (simp add: boxed_loop_none)
  next
    case (Some s)
    note S = Some
    define bs where "bs = s + length boxed_marker"
    show ?thesis
    proof (cases "match_brace (drop bs t) bs 0")
      case None
      have "boxed_loop t pos (a @ all_matches) = boxed_loop t bs (a @ all_matches)"
        using S None by (subst boxed_loop.simps) (simp add: Let_def bs_def)
      also have "\<dots> = a @ boxed_loop t bs all_matches"
        by (rule "1.IH"(1)[OF S bs_def None])
      also have "boxed_loop t bs all_matches = boxed_loop t pos all_matches"
        using S None by (subst (2) boxed_loop.simps) (simp add: Let_def bs_def)
      finally show ?thesis .
    next
      case (Some e)
      define content where "content = strip (take (e - bs) (drop bs t))"
      define acc' where "acc' = (if content \<noteq> [] then all_matches @ [content] else all_matches)"
      have a: "(if content \<noteq> [] then (a @ all_matches) @ [content] else a @ all_matches) = a @ acc'"
        by (simp add: acc'_def)
      have "boxed_loop t pos (a @ all_matches) = boxed_loop t (e + 1) (a @ acc')"
        using S Some unfolding a[symmetric] content_def
        by (subst boxed_loop.simps) (simp add: Let_def bs_def)
      also have "\<dots> = a @ boxed_loop t (e + 1) acc'"
        unfolding acc'_def by (rule "1.IH"(2)[OF S bs_def Some content_def])
      also have "boxed_loop t (e + 1) acc' = boxed_loop t pos all_matches"
        using S Some unfolding acc'_def content_def
        by (subst (2) boxed_loop.simps) (simp add: Let_def bs_def)
      finally show ?thesis .
    qed
  qed
qed

lemma boxed_loop_first_match:
  assumes "balanced body"
    and "str_find (pre @ boxed_marker @ body @ CHR ''}'' # rest) boxed_marker 0 = Some (length pre)"
  shows "boxed_loop (pre @ boxed_marker @ body @ CHR ''}'' # rest) 0 [] =
           (if strip body \<noteq> [] then [strip body] else []) @ boxed_loop rest 0 []"
proof -
  let ?t = "pre @ boxed_marker @ body @ CHR ''}'' # rest"
  let ?acc = "(if strip body \<noteq> [] then [] @ [strip body] else [])"
  have d: "drop (length pre + length boxed_marker) ?t = body @ CHR ''}'' # rest" by simp
  have "boxed_loop ?t 0 [] = boxed_loop ?t (length pre + length boxed_marker + length body + 1) ?acc"
    by (rule boxed_loop_step[OF assms(2) d assms(1)])
  also have "\<dots> = boxed_loop ((pre @ boxed_marker @ body @ [CHR ''}'']) @ rest)
                        (length (pre @ boxed_marker @ body @ [CHR ''}'']) + 0) ?acc"
    by (simp add: add.assoc)
  also have "\<dots> = boxed_loop rest 0 ?acc" by (rule boxed_loop_shift)
  also have "\<dots> = ?acc @ boxed_loop rest 0 []"
    using boxed_loop_append[of rest 0 ?acc "[]"] by simp
  finally show ?thesis by simp
qed

lemma extract_boxed_first_match:
  assumes "balanced body"
    and "str_find (pre @ boxed_marker @ body @ CHR ''}'' # rest) boxed_marker 0 = Some (length pre)"
  shows "extract_boxed_content (pre @ boxed_marker @ body @ CHR ''}'' # rest) =
           (case extract_boxed_content rest of
              Some r \<Rightarrow> Some r
            | None \<Rightarrow> if strip body \<noteq> [] then Some (strip body) else None)"
  by (simp add: extract_boxed_content_def boxed_loop_first_match[OF assms] Let_def)

lemma no_backslash_find_at:
  "CHR 0x5C \<notin> set xs \<Longrightarrow> find_at boxed_marker xs i = None"
  by (induction xs arbitrary: i) (auto simp: boxed_marker_def)

lemma no_backslash_str_find:
  "CHR 0x5C \<notin> set t \<Longrightarrow> str_find t boxed_marker pos = None"
  by (auto simp: str_find_def intro!: no_backslash_find_at dest: in_set_dropD)

lemma no_backslash_extract:
  "CHR 0x5C \<notin> set t \<Longrightarrow> extract_boxed_content t = None"
  by (simp add: extract_boxed_content_def boxed_loop_none no_backslash_str_find)

lemma estimate_400: "length t = 400 \<Longrightarrow> estimate_text_tokens t = 101"
  by (auto simp: estimate_text_tokens_def)

lemma estimate_40: "length t = 40 \<Longrightarrow> estimate_text_tokens t = 11"
  by (auto simp: estimate_text_tokens_def)

lemma shrink_400:
  assumes "length t = 400"
  shows "shrink_loop t 100 = Some (drop 360 t)"
proof -
  have "shrink_loop t 100 = shrink_loop (drop 360 t) 100"
    using assms by (subst shrink_loop.simps) (simp add: estimate_400 slice_from_def)
  also have "\<dots> = Some (drop 360 t)"
    using assms by (subst shrink_loop.simps) (simp add: estimate_40)
  finally show ?thesis .
qed

lemma truncate_long:
  assumes "400 \<le> length t"
  shows "truncate_last_n_tokens t 100 = Some (drop (length t - 40) t)"
proof -
  have ne: "t \<noteq> []" using assms by auto
  have est: "\<not> estimate_text_tokens t \<le> 100"
    using assms by (auto simp: estimate_text_tokens_def)
  have len: "length (drop (length t - 400) t) = 400" using assms by simp
  have "truncate_last_n_tokens t 100 = shrink_loop (drop (length t - 400) t) 100"
    using ne est by (simp add: truncate_last_n_tokens_def slice_from_def Let_def)
  also have "\<dots> = Some (drop 360 (drop (length t - 400) t))" by (rule shrink_400[OF len])
  also have "drop 360 (drop (length t - 400) t) = drop (length t - 40) t"
    using assms by simp
  finally show ?thesis .
qed

lemma truncate_short:
  assumes "length t < 400"
  shows "truncate_last_n_tokens t 100 = Some t"
  using assms by (auto simp: truncate_last_n_tokens_def estimate_text_tokens_def Let_def)

section \<open>Lemmas about the aggregator\<close>

lemma update_absent: "map_of al k = None \<Longrightarrow> AList.update k v al = al @ [(k, v)]"
  by (induction al) (auto split: if_splits)

lemma filter_by_key:
  assumes "distinct (map fst al)"
    and "\<And>k v. map_of al k = Some v \<Longrightarrow> f v = k"
  shows "filter (\<lambda>v. f v = q) (map snd al) = (case map_of al q of Some v \<Rightarrow> [v] | None \<Rightarrow> [])"
  using assms
proof (induction al)
  case Nil
  show ?case by simp
next
  case (Cons p al)
  obtain k v where p: "p = (k, v)" by (cases p)
  have d: "distinct (map fst al)" and nk: "k \<notin> fst ` set al" using Cons.prems(1) p by auto
  have fv: "f v = k" using Cons.prems(2)[of k v] p by simp
  have sub: "\<And>k' v'. map_of al k' = Some v' \<Longrightarrow> f v' = k'"
  proof -
    fix k' v' assume a: "map_of al k' = Some v'"
    then have "k' \<in> fst ` set al" by (metis map_of_eq_None_iff option.distinct(1))
    with nk have "k' \<noteq> k" by auto
    with a show "f v' = k'" using Cons.prems(2)[of k' v'] p by simp
  qed
  have ih: "filter (\<lambda>v. f v = q) (map snd al) = (case map_of al q of Some v \<Rightarrow> [v] | None \<Rightarrow> [])"
    by (rule Cons.IH[OF d sub])
  show ?case
  proof (cases "q = k")
    case True
    have "map_of al k = None" using nk by (simp add: map_of_eq_None_iff)
    then show ?thesis using ih p fv True by simp
  next
    case False
    then show ?thesis using ih p fv by simp
  qed
qed

lemma find_snoc:
  "find P (xs @ [x]) = (case find P xs of Some r \<Rightarrow> Some r | None \<Rightarrow> if P x then Some x else None)"
  by (induction xs) auto

lemma find_conj_None: "find P rs = None \<Longrightarrow> find (\<lambda>r. P r \<and> Q r) rs = None"
  by (induction rs) (auto split: if_splits)

lemma find_other_snoc: "\<not> P x \<Longrightarrow> find P (rs @ [x]) = find P rs"
  by (simp add: find_snoc split: option.splits)

lemma first_valid_other: "question_id x \<noteq> q \<Longrightarrow> first_valid ms q (rs @ [x]) = first_valid ms q rs"
  by (simp add: first_valid_def find_other_snoc split: option.splits)

lemma first_valid_same:
  "first_valid ms (question_id x) (rs @ [x]) =
     (case find (\<lambda>r. question_id r = question_id x \<and> has_valid_answer ms r) rs of
        Some r \<Rightarrow> Some r
      | None \<Rightarrow> if has_valid_answer ms x then Some x
                else (case find (\<lambda>r. question_id r = question_id x) rs of
                        Some r \<Rightarrow> Some r | None \<Rightarrow> Some x))"
  by (simp add: first_valid_def find_snoc split: option.splits)

lemma dedup_inv_step:
  assumes "dedup_inv ms rs st"
  shows "dedup_inv ms (rs @ [x]) (dedup_step ms st x)"
proof -
  obtain q2i hv where st: "st = (q2i, hv)" by (cases st)
  let ?P = "\<lambda>q r. question_id r = q"
  let ?V = "\<lambda>q r. question_id r = q \<and> has_valid_answer ms r"
  from assms st have d: "distinct (map fst q2i)"
    and m1: "\<And>q. map_of q2i q = (if q = [] then None else first_valid ms q rs)"
    and m2: "\<And>q. map_of hv q =
            (if q = [] \<or> find (?P q) rs = None then None else Some (find (?V q) rs \<noteq> None))"
    by (auto simp: dedup_inv_def)
  define i where "i = question_id x"
  have other1: "\<And>q. q \<noteq> i \<Longrightarrow> first_valid ms q (rs @ [x]) = first_valid ms q rs"
    unfolding i_def by (rule first_valid_other) simp
  have otherP: "\<And>q. q \<noteq> i \<Longrightarrow> find (?P q) (rs @ [x]) = find (?P q) rs"
    unfolding i_def by (rule find_other_snoc) simp
  have otherV: "\<And>q. q \<noteq> i \<Longrightarrow> find (?V q) (rs @ [x]) = find (?V q) rs"
    unfolding i_def by (rule find_other_snoc) simp
  have keep: "dedup_inv ms (rs @ [x]) (q2i, hv)"
    if "i = [] \<or> (first_valid ms i (rs @ [x]) = first_valid ms i rs \<and> find (?P i) rs \<noteq> None
                  \<and> (find (?V i) (rs @ [x]) \<noteq> None) = (find (?V i) rs \<noteq> None))"
  proof -
    have a: "map_of q2i q = (if q = [] then None else first_valid ms q (rs @ [x]))" for q
      using that m1[of q] other1[of q] by (cases "q = i") auto
    have pi: "find (?P i) (rs @ [x]) \<noteq> None" by (simp add: find_snoc i_def split: option.splits)
    have b: "map_of hv q = (if q = [] \<or> find (?P q) (rs @ [x]) = None then None
                            else Some (find (?V q) (rs @ [x]) \<noteq> None))" for q
    proof (cases "q = i")
      case True
      show ?thesis
      proof (cases "i = []")
        case True
        with \<open>q = i\<close> show ?thesis using m2[of q] by simp
      next
        case False
        with that have "find (?P i) rs \<noteq> None"
          and "(find (?V i) (rs @ [x]) \<noteq> None) = (find (?V i) rs \<noteq> None)" by auto
        with \<open>q = i\<close> False pi show ?thesis using m2[of i] by simp
      qed
    next
      case False
      then show ?thesis using m2[of q] otherP[of q] otherV[of q] by simp
    qed
    show ?thesis unfolding dedup_inv_def using d a b by simp
  qed
  have upd: "dedup_inv ms (rs @ [x]) (AList.update i x q2i, AList.update i v hv)"
    if "i \<noteq> []" and "first_valid ms i (rs @ [x]) = Some x"
      and "v = (find (?V i) (rs @ [x]) \<noteq> None)" for v
  proof -
    have pi: "find (?P i) (rs @ [x]) \<noteq> None" by (simp add: find_snoc i_def split: option.splits)
    have a: "map_of (AList.update i x q2i) q = (if q = [] then None else first_valid ms q (rs @ [x]))" for q
      using that m1[of q] other1[of q] by (cases "q = i") (auto simp: update_conv')
    have b: "map_of (AList.update i v hv) q = (if q = [] \<or> find (?P q) (rs @ [x]) = None then None
                            else Some (find (?V q) (rs @ [x]) \<noteq> None))" for q
      using that pi m2[of q] otherP[of q] otherV[of q] by (cases "q = i") (auto simp: update_conv')
    show ?thesis unfolding dedup_inv_def using d a b by (simp add: distinct_update)
  qed
  show ?thesis
  proof (cases "i = []")
    case True
    then show ?thesis using keep by (simp add: dedup_step_def st i_def Let_def)
  next
    case ne: False
    show ?thesis
    proof (cases "map_of hv i = Some True")
      case True
      then have p: "find (?P i) rs \<noteq> None" and v: "find (?V i) rs \<noteq> None"
        using m2[of i] ne by (auto split: if_splits)
      from v obtain r where r: "find (?V i) rs = Some r" by auto
      have "first_valid ms i (rs @ [x]) = first_valid ms i rs"
        using r first_valid_same[of ms x rs] by (simp add: i_def first_valid_def)
      moreover have "find (?V i) (rs @ [x]) \<noteq> None" using r by (simp add: find_snoc)
      ultimately have "dedup_inv ms (rs @ [x]) (q2i, hv)" using keep p v by simp
      then show ?thesis using True ne by (simp add: dedup_step_def st i_def Let_def)
    next
      case nt: False
      have nv: "find (?V i) rs = None"
      proof (cases "find (?P i) rs = None")
        case True then show ?thesis by (rule find_conj_None)
      next
        case False
        then show ?thesis using m2[of i] ne nt by auto
      qed
      show ?thesis
      proof (cases "map_of q2i i = None")
        case True
        then have fv: "first_valid ms i rs = None" using m1[of i] ne by simp
        then have np: "find (?P i) rs = None" using nv by (simp add: first_valid_def)
        have f: "first_valid ms i (rs @ [x]) = Some x"
          using first_valid_same[of ms x rs] nv np by (simp add: i_def)
        have v: "has_valid_answer ms x = (find (?V i) (rs @ [x]) \<noteq> None)"
          using nv by (simp add: find_snoc i_def)
        from upd[OF ne f v] show ?thesis
          using True ne nt by (simp add: dedup_step_def st i_def Let_def)
      next
        case ex: False
        then have fv: "first_valid ms i rs \<noteq> None" using m1[of i] ne by simp
        then have p: "find (?P i) rs \<noteq> None" using nv by (simp add: first_valid_def)
        show ?thesis
        proof (cases "has_valid_answer ms x")
          case True
          have f: "first_valid ms i (rs @ [x]) = Some x"
            using first_valid_same[of ms x rs] nv True by (simp add: i_def)
          have v: "True = (find (?V i) (rs @ [x]) \<noteq> None)"
            using nv True by (simp add: find_snoc i_def)
          from upd[OF ne f v] show ?thesis
            using ex ne nt True by (auto simp: dedup_step_def st i_def Let_def)
        next
          case False
          have f: "first_valid ms i (rs @ [x]) = first_valid ms i rs"
            using first_valid_same[of ms x rs] nv False p
            by (auto simp: i_def first_valid_def split: option.splits)
          have v: "(find (?V i) (rs @ [x]) \<noteq> None) = (find (?V i) rs \<noteq> None)"
            using nv False by (simp add: find_snoc i_def)
          have "dedup_inv ms (rs @ [x]) (q2i, hv)" using keep f p v by simp
          then show ?thesis using ex ne nt False by (auto simp: dedup_step_def st i_def Let_def)
        qed
      qed
    qed
  qed
qed

lemma dedup_inv_foldl: "dedup_inv ms rs (foldl (dedup_step ms) ([], []) rs)"
proof (induction rs rule: rev_induct)
  case Nil
  show ?case by (simp add: dedup_inv_def first_valid_def)
next
  case (snoc x xs)
  then show ?case using dedup_inv_step[of ms xs _ x] by simp
qed

lemma first_valid_id: "first_valid ms q rs = Some r \<Longrightarrow> question_id r = q"
  by (auto simp: first_valid_def find_Some_iff split: option.splits)

lemma dedup_filter:
  assumes "q \<noteq> []"
  shows "filter (\<lambda>r. question_id r = q) (deduplicate_results ms rs) =
           (case first_valid ms q rs of Some r \<Rightarrow> [r] | None \<Rightarrow> [])"
proof -
  define st where "st = foldl (dedup_step ms) ([], []) rs"
  have inv: "dedup_inv ms rs st" unfolding st_def by (rule dedup_inv_foldl)
  then have d: "distinct (map fst (fst st))"
    and m1: "\<And>q. map_of (fst st) q = (if q = [] then None else first_valid ms q rs)"
    by (auto simp: dedup_inv_def)
  have ids: "\<And>k v. map_of (fst st) k = Some v \<Longrightarrow> question_id v = k"
    using m1 first_valid_id by (metis option.distinct(1))
  have "filter (\<lambda>r. question_id r = q) (map snd (fst st)) =
          (case map_of (fst st) q of Some v \<Rightarrow> [v] | None \<Rightarrow> [])"
    by (rule filter_by_key[OF d ids])
  then show ?thesis using assms by (simp add: deduplicate_results_def st_def[symmetric] m1)
qed

lemma answer_blank_cases:
  "answer_blank (Some v) \<Longrightarrow> v = JNull \<or> (\<exists>s. v = JStr s \<and> strip s = [])"
  by (cases v) (auto simp: answer_blank_def)

lemma blank_round_value_empty: "answer_blank (Some v) \<Longrightarrow> round_value_empty v"
  by (auto dest!: answer_blank_cases simp: round_value_empty_def)

lemma blank_is_round_empty: "answer_blank (Some v) \<Longrightarrow> is_round_empty v"
  by (auto dest!: answer_blank_cases simp: is_round_empty_def)

lemma all_blank_any_round_empty:
  "ad \<noteq> [] \<Longrightarrow> list_all (\<lambda>(k, v). answer_blank (Some v)) ad \<Longrightarrow> any_round_empty ad"
  by (cases ad) (auto simp: blank_round_value_empty)

lemma unit_blank_check: "unit_blank e \<Longrightarrow> check_answer_empty (get_answer e)"
proof (cases "answer e")
  case None
  then show ?thesis by (simp add: get_answer_def check_answer_empty_def strip_def)
next
  case (Some v)
  assume u: "unit_blank e"
  show ?thesis
  proof (cases v)
    case (JDict ad)
    with u Some have "list_all (\<lambda>(k, v). answer_blank (Some v)) ad" by (simp add: unit_blank_def)
    then show ?thesis using Some JDict all_blank_any_round_empty[of ad]
      by (auto simp: get_answer_def check_answer_empty_def)
  qed (use u Some in \<open>auto simp: unit_blank_def answer_blank_def get_answer_def check_answer_empty_def\<close>)
qed

lemma scan_blank:
  assumes "\<forall>key \<in> set keys. case item_get it key of Entry e \<Rightarrow> unit_blank e | NotADict \<Rightarrow> True"
  shows "scan_possible_keys it mk (Some (c # cs)) keys"
  using assms
proof (induction keys)
  case Nil
  show ?case by simp
next
  case (Cons key keys)
  then have ih: "scan_possible_keys it mk (Some (c # cs)) keys" by simp
  show ?case
  proof (cases "item_get it key")
    case NotADict
    then show ?thesis using ih by simp
  next
    case (Entry e)
    with Cons.prems have "unit_blank e" by simp
    then have "check_answer_empty (get_answer e)" by (rule unit_blank_check)
    then show ?thesis using ih Entry by simp
  qed
qed

lemma blank_is_answer_empty:
  assumes "all_units_blank it" and "k \<in> set possible_keys"
  shows "is_answer_empty it (Some k) (Some (c # cs))"
proof -
  have all: "\<forall>key \<in> set possible_keys. case item_get it key of Entry e \<Rightarrow> unit_blank e | NotADict \<Rightarrow> True"
    using assms(1) by (simp add: all_units_blank_def list_all_iff)
  have s: "scan_possible_keys it (Some k) (Some (c # cs)) possible_keys"
    by (rule scan_blank[OF all])
  have "case item_get it k of Entry e \<Rightarrow> unit_blank e | NotADict \<Rightarrow> True"
    using all assms(2) by blast
  then have f: "case item_get it k of Entry e \<Rightarrow> check_answer_empty (get_answer e) | NotADict \<Rightarrow> True"
    by (auto split: slot.splits intro: unit_blank_check)
  obtain k0 ks where k: "k = k0 # ks"
    using assms(2) by (cases k) (auto simp: possible_keys_def)
  show ?thesis
    using s f unfolding is_answer_empty_def Let_def k
    by (auto split: slot.splits)
qed

lemma find_in_keys_Some:
  "find_in_keys it m keys = Some (k, e) \<Longrightarrow>
     k \<in> set keys \<and> map_of (slots it) k = Some (Entry e) \<and> name_is e m"
  by (induction keys) (auto split: option.splits slot.splits if_splits)

lemma find_model_entry_Some:
  "find_model_entry it m = Some (k, e) \<Longrightarrow>
     k \<in> set possible_keys \<and> item_get it k = Entry e \<and> name_is e m"
  by (auto simp: find_model_entry_def item_get_def dest!: find_in_keys_Some)

lemma count_rounds_blank:
  assumes "\<And>k v. map_of ad k = Some v \<Longrightarrow> answer_blank (Some v)"
  shows "count_rounds mg ad = (0, 0)"
proof (induction mg)
  case Nil
  show ?case by simp
next
  case (Cons p mg)
  obtain k c where p: "p = (k, c)" by (cases p)
  have "is_round_empty (case map_of ad k of None \<Rightarrow> JStr [] | Some v \<Rightarrow> v)"
  proof (cases "map_of ad k")
    case None
    then show ?thesis by (simp add: is_round_empty_def strip_def)
  next
    case (Some v)
    then show ?thesis using assms[of k v] by (simp add: blank_is_round_empty)
  qed
  then show ?case using Cons.IH p by simp
qed

lemma has_any_answer_blank:
  "list_all (\<lambda>(k, v). answer_blank (Some v)) ad \<Longrightarrow> \<not> has_any_answer ad"
  by (induction ad) (auto dest!: answer_blank_cases)

lemma list_all_map_of:
  "list_all (\<lambda>(k, v). P v) ad \<Longrightarrow> map_of ad k = Some v \<Longrightarrow> P v"
  by (auto simp: list_all_iff dest!: map_of_SomeD)

lemma count_item_blank:
  assumes "all_units_blank it" and "find_model_entry it (c # cs) = Some (k, e)"
  shows "count_item cbr it k e (Some (c # cs)) = (0, 0)"
proof -
  from find_model_entry_Some[OF assms(2)]
  have k: "k \<in> set possible_keys" and g: "item_get it k = Entry e" by auto
  have emp: "is_answer_empty it (Some k) (Some (c # cs))"
    by (rule blank_is_answer_empty[OF assms(1) k])
  have "case item_get it k of Entry e \<Rightarrow> unit_blank e | NotADict \<Rightarrow> True"
    using assms(1) k by (simp add: all_units_blank_def list_all_iff)
  then have u: "unit_blank e" using g by simp
  show ?thesis
  proof (cases "match_gt e")
    case None
    then show ?thesis using emp by (simp add: count_item_def str_truthy_def)
  next
    case (Some mgv)
    show ?thesis
    proof (cases mgv)
      case (JDict mg)
      show ?thesis
      proof (cases "answer e")
        case None
        have "count_rounds mg [] = (0, 0)" by (rule count_rounds_blank) simp
        then show ?thesis using Some JDict None by (simp add: count_item_def Let_def)
      next
        case sa: (Some av)
        show ?thesis
        proof (cases av)
          case jd: (JDict ad)
          have la: "list_all (\<lambda>(k, v). answer_blank (Some v)) ad"
            using u sa jd by (simp add: unit_blank_def)
          have "count_rounds mg ad = (0, 0)"
            by (rule count_rounds_blank) (rule list_all_map_of[OF la])
          moreover have "\<not> has_any_answer ad" by (rule has_any_answer_blank[OF la])
          ultimately show ?thesis using Some JDict sa jd by (simp add: count_item_def Let_def)
        qed (use Some JDict sa emp in \<open>auto simp: count_item_def str_truthy_def Let_def\<close>)
      qed
    qed (use Some emp in \<open>auto simp: count_item_def str_truthy_def\<close>)
  qed
qed

lemma model_count_blank:
  "all_units_blank it \<Longrightarrow> m \<noteq> [] \<Longrightarrow> model_count cbr it m = (0, 0)"
  by (cases m) (auto simp: model_count_def count_item_blank split: option.splits)

lemma add_counts_zero [simp]: "add_counts a (0, 0) = a"
  by (simp add: add_counts_def)

lemma item_counts_blank:
  assumes "all_units_blank it" and "[] \<notin> set ms"
  shows "item_counts cbr ms it = (0, 0)"
proof -
  have "foldl (\<lambda>acc mn. add_counts acc (model_count cbr it mn)) a ms = a" for a
    using assms(2) by (induction ms arbitrary: a) (auto simp: model_count_blank[OF assms(1)])
  then show ?thesis by (simp add: item_counts_def)
qed

lemma has_valid_answer_blank:
  assumes "all_units_blank it" and "[] \<notin> set ms"
  shows "\<not> has_valid_answer ms it"
  using assms(2)
proof (induction ms)
  case Nil
  show ?case by simp
next
  case (Cons m ms)
  then obtain c cs where m: "m = c # cs" by (cases m) auto
  show ?case
    using Cons find_model_entry_Some[of it m] blank_is_answer_empty[OF assms(1)]
    by (auto simp: m split: option.splits)
qed

lemma question_result_blank:
  assumes "all_units_blank it" and "[] \<notin> set ms"
  shows "question_result ms it = (False, False)"
  using assms(2)
proof (induction ms)
  case Nil
  show ?case by simp
next
  case (Cons m ms)
  then obtain c cs where m: "m = c # cs" by (cases m) auto
  show ?case
    using Cons find_model_entry_Some[of it m] blank_is_answer_empty[OF assms(1)]
    by (auto simp: m split: option.splits)
qed

lemma sum_items_snoc: "sum_items f (its @ [x]) = add_counts (sum_items f its) (f x)"
  by (simp add: sum_items_def)

lemma dedup_snoc_invalid:
  assumes "\<not> has_valid_answer ms e"
  shows "deduplicate_results ms (rs @ [e]) = deduplicate_results ms rs \<or>
         deduplicate_results ms (rs @ [e]) = deduplicate_results ms rs @ [e]"
proof -
  obtain q2i hv where st: "foldl (dedup_step ms) ([], []) rs = (q2i, hv)"
    by (cases "foldl (dedup_step ms) ([], []) rs")
  show ?thesis
    using assms
    by (auto simp: deduplicate_results_def st dedup_step_def Let_def update_absent)
qed

lemma first_pass_snoc_invalid:
  assumes "\<not> has_valid_answer ms e"
  shows "foldl (first_pass_step ms) [] (rs @ [e]) = foldl (first_pass_step ms) [] rs \<or>
         foldl (first_pass_step ms) [] (rs @ [e]) = foldl (first_pass_step ms) [] rs @ [(question_id e, e)]"
  using assms
  by (auto simp: first_pass_step_def Let_def update_absent split: option.splits)

lemma second_pass_blank:
  assumes "question_result ms e = (False, False)"
  shows "second_pass_step ms st (q, e) = st"
  using assms by (cases st) (auto simp: second_pass_step_def Let_def)

lemma blank_append_invariant:
  assumes "[] \<notin> set ms" and "all_units_blank e"
  shows "total_counts cbr ms (rs @ [e]) = total_counts cbr ms rs"
    and "m \<in> set ms \<Longrightarrow> by_model cbr ms (rs @ [e]) m = by_model cbr ms rs m"
    and "by_profile cbr ms (rs @ [e]) p = by_profile cbr ms rs p"
proof -
  have nv: "\<not> has_valid_answer ms e" by (rule has_valid_answer_blank[OF assms(2,1)])
  have ic: "item_counts cbr ms e = (0, 0)" by (rule item_counts_blank[OF assms(2,1)])
  have qr: "question_result ms e = (False, False)" by (rule question_result_blank[OF assms(2,1)])
  note d = dedup_snoc_invalid[OF nv, of rs]
  note fp = first_pass_snoc_invalid[OF nv, of rs]
  show "total_counts cbr ms (rs @ [e]) = total_counts cbr ms rs"
  proof (cases cbr)
    case True
    then show ?thesis using d ic by (auto simp: total_counts_def sum_items_snoc)
  next
    case False
    then show ?thesis using fp by (auto simp: total_counts_def second_pass_blank[OF qr])
  qed
  show "by_model cbr ms (rs @ [e]) m = by_model cbr ms rs m" if "m \<in> set ms"
  proof -
    from that assms(1) have "m \<noteq> []" by auto
    then have "model_count cbr e m = (0, 0)" by (rule model_count_blank[OF assms(2)])
    then show ?thesis using d by (auto simp: by_model_def sum_items_snoc)
  qed
  show "by_profile cbr ms (rs @ [e]) p = by_profile cbr ms rs p"
    using d ic by (auto simp: by_profile_def sum_items_snoc)
qed

lemma count_rounds_filter:
  "count_rounds mg ad = count_rounds (filter (\<lambda>(k, c). \<not> answer_blank (map_of ad k)) mg) ad"
proof (induction mg)
  case Nil
  show ?case by simp
next
  case (Cons p mg)
  obtain k c where p: "p = (k, c)" by (cases p)
  show ?case
  proof (cases "answer_blank (map_of ad k)")
    case True
    have "is_round_empty (case map_of ad k of None \<Rightarrow> JStr [] | Some v \<Rightarrow> v)"
    proof (cases "map_of ad k")
      case None
      then show ?thesis by (simp add: is_round_empty_def strip_def)
    next
      case (Some a)
      with True have "is_round_empty a" by (simp add: blank_is_round_empty)
      with Some show ?thesis by simp
    qed
    then show ?thesis using Cons.IH p True by simp
  next
    case False
    then show ?thesis using Cons.IH p by simp
  qed
qed

lemma strip_Nil [simp]: "strip [] = []"
  by (simp add: strip_def)

lemma strip_letter [simp]: "strip ''A'' = ''A''" "strip ''C'' = ''C''"
  by (simp_all add: strip_def isspace_def)

lemma example_ids:
  "question_id example_empty_record = ''q1''"
  "question_id example_answered_record = ''q1''"
  "question_id example_partial_record = ''q1''"
  by (simp_all add: example_empty_record_def example_answered_record_def example_partial_record_def)

lemma example_empty_find: "find_model_entry example_empty_record ''m'' = None"
  by (simp add: find_model_entry_def possible_keys_def example_empty_record_def
      model_entry_is_valid_def)

lemma example_empty_valid: "\<not> has_valid_answer [''m''] example_empty_record"
  by (simp add: example_empty_find)

lemma example_answered_find:
  "find_model_entry example_answered_record ''m'' =
     Some (''model'', \<lparr> process = Some (JStr ''because''), answer = Some (JStr ''C''),
                 model_name = Some (JStr ''m''), response_time = Some 2,
                 match_gt = Some (JBool True), judge_reasoning = Some (JStr ''same choice'') \<rparr>)"
  by (simp add: find_model_entry_def possible_keys_def example_answered_record_def
      model_entry_is_valid_def name_is_def)

lemma example_answered_nonempty:
  "\<not> is_answer_empty example_answered_record (Some ''model'') (Some ''m'')"
  by (simp add: is_answer_empty_def Let_def item_get_def example_answered_record_def
      str_truthy_def name_is_def get_answer_def check_answer_empty_def)

lemma example_answered_valid: "has_valid_answer [''m''] example_answered_record"
  by (simp add: example_answered_find example_answered_nonempty)

lemma example_partial_find:
  "find_model_entry example_partial_record ''m'' = Some (''model'', example_partial_entry)"
  by (simp add: find_model_entry_def possible_keys_def example_partial_record_def
      example_partial_entry_def model_entry_is_valid_def name_is_def)

lemma example_partial_empty:
  "is_answer_empty example_partial_record (Some ''model'') (Some ''m'')"
  by (simp add: is_answer_empty_def Let_def item_get_def example_partial_record_def
      example_partial_entry_def str_truthy_def name_is_def get_answer_def
      check_answer_empty_def round_value_empty_def possible_keys_def empty_entry_def)

lemma example_partial_valid: "\<not> has_valid_answer [''m''] example_partial_record"
  by (simp add: example_partial_find example_partial_empty)

lemma example_partial_count:
  "model_count False example_partial_record ''m'' = (1, 0)"
  "model_count True example_partial_record ''m'' = (1, 1)"
  by (simp_all add: model_count_def example_partial_find count_item_def Let_def
      example_partial_entry_def all_values_def is_round_empty_def)

section \<open>Lemmas about failed evaluations and the converter\<close>




lemma stored_store_result [simp]: "stored (store_result rk mn r st) rk mn = Some r"
  by (simp add: stored_def store_result_def update_conv')

lemma stored_round_failed [simp]: "stored (round_failed rk mn e st) rk mn = Some (error_result mn e)"
  by (simp add: round_failed_def)






lemma resume_completed:
  "completed_ids (resume_scan mn items) =
     {question_id it | it. it \<in> set items \<and> question_id it \<noteq> [] \<and>
                            \<not> is_answer_empty it None (Some mn)}"
proof -
  let ?C = "\<lambda>items. {question_id it | it. it \<in> set items \<and> question_id it \<noteq> [] \<and>
                            \<not> is_answer_empty it None (Some mn)}"
  let ?st0 = "\<lparr> seen_ids = {}, rs_question_id_to_item = [], rs_has_valid_answer = [],
         completed_ids = {}, removed_duplicate_count = 0, empty_answer_count = 0 \<rparr>"
  have "completed_ids (foldl (resume_step mn) ?st0 items) = ?C items \<and>
        (\<forall>q. map_of (rs_has_valid_answer (foldl (resume_step mn) ?st0 items)) q = Some True
              \<longrightarrow> q \<in> ?C items)"
  proof (induction items rule: rev_induct)
    case Nil
    show ?case by simp
  next
    case (snoc x xs)
    define st where "st = foldl (resume_step mn) ?st0 xs"
    from snoc have c: "completed_ids st = ?C xs"
      and v: "\<And>q. map_of (rs_has_valid_answer st) q = Some True \<Longrightarrow> q \<in> ?C xs"
      by (auto simp: st_def)
    have u: "?C (xs @ [x]) = (if question_id x \<noteq> [] \<and> \<not> is_answer_empty x None (Some mn)
                              then insert (question_id x) (?C xs) else ?C xs)"
      by auto
    have 1: "completed_ids (resume_step mn st x) = ?C (xs @ [x])"
      unfolding u using c v[of "question_id x"]
      by (auto simp: resume_step_def Let_def)
    have 2: "map_of (rs_has_valid_answer (resume_step mn st x)) q = Some True \<Longrightarrow> q \<in> ?C (xs @ [x])" for q
      unfolding u using v[of q]
      by (auto simp: resume_step_def Let_def update_conv' split: if_splits)
    show ?case using 1 2 by (simp add: st_def)
  qed
  then show ?thesis by (simp add: resume_scan_def)
qed






lemma collect_rounds_all:
  "snd (collect_rounds rd mn qs) = list_all is_correct (fst (collect_rounds rd mn qs))"
  by (induction qs) (auto simp: Let_def make_round_item_def round_result.defs split: prod.splits option.splits)

lemma summarize_model_all:
  "mr_is_correct (summarize_model st qs mn) = list_all is_correct (rounds (summarize_model st qs mn))"
  using collect_rounds_all[of "rounds_data st" mn qs]
  by (cases "collect_rounds (rounds_data st) mn qs") (simp add: summarize_model_def Let_def)

lemma has_any_answer_mem:
  "(k, JStr s) \<in> set ad \<Longrightarrow> strip s \<noteq> [] \<Longrightarrow> has_any_answer ad"
  by (induction ad) (auto split: json.splits)

lemma count_rounds_answered:
  assumes "\<forall>(k, c) \<in> set mg. \<exists>s. map_of ad k = Some (JStr s) \<and> strip s \<noteq> []"
  shows "count_rounds mg ad = (length mg, length (filter (\<lambda>(k, c). truthy c) mg))"
  using assms
  by (induction mg) (auto simp: is_round_empty_def)

lemma example_failed_eval:
  "eval_single_model judge_down ''which one?'' [] example_question ''m'' =
     error_result ''m'' ''judge unavailable''"
  by (simp add: eval_single_model_def judge_down_def Let_def)

lemma example_half_failed_convert:
  "convert_to_module2_format (\<lambda>a raw. a) example_half_failed_result ''m'' ''expert'' =
     Some (example_half_failed_record, 0)"
  by (simp add: convert_to_module2_format_def example_half_failed_result_def
      example_half_failed_def md_rounds_def Let_def convert_round_def round_key_of_def
      make_round_item_def round_result.defs example_question_def example_second_question_def
      example_good_round_def error_result_def md_response_time_def agreement_with_gt_def
      all_values_def module2_category_def example_half_failed_record_def)

lemma example_half_failed_find:
  "find_model_entry example_half_failed_record ''m'' =
     Some (''model'',
        \<lparr> process = Some (JDict [(''round1'', JStr ''the answer is C''), (''round2'', JStr [])]),
          answer = Some (JDict [(''round1'', JStr ''C''), (''round2'', JStr [])]),
          model_name = Some (JStr ''m''), response_time = Some 2,
          match_gt = Some (JDict [(''round1'', JBool True), (''round2'', JBool False)]),
          judge_reasoning = Some (JDict [(''round1'', JStr ''same choice''), (''round2'', JStr [])]) \<rparr>)"
  by (simp add: find_model_entry_def possible_keys_def example_half_failed_record_def
      model_entry_is_valid_def name_is_def)

lemma example_half_failed_empty:
  "is_answer_empty example_half_failed_record (Some ''model'') (Some ''m'')"
  by (simp add: is_answer_empty_def Let_def item_get_def example_half_failed_record_def
      str_truthy_def name_is_def get_answer_def
      check_answer_empty_def round_value_empty_def possible_keys_def empty_entry_def)

lemma example_half_failed_counts:
  "by_model False [''m''] [example_half_failed_record] ''m'' = (1, 0)"
  "by_profile False [''m''] [example_half_failed_record] ''expert'' = (1, 0)"
  "total_counts False [''m''] [example_half_failed_record] = (0, 0)"
proof -
  have hv: "\<not> has_valid_answer [''m''] example_half_failed_record"
    by (simp add: example_half_failed_find example_half_failed_empty)
  have q: "question_id example_half_failed_record = ''q2''"
    "profile example_half_failed_record = Some ''expert''"
    by (simp_all add: example_half_failed_record_def)
  have d: "deduplicate_results [''m''] [example_half_failed_record] = [example_half_failed_record]"
    by (simp add: deduplicate_results_def dedup_step_def Let_def hv q del: has_valid_answer.simps)
  have c: "model_count False example_half_failed_record ''m'' = (1, 0)"
    by (simp add: model_count_def example_half_failed_find count_item_def Let_def all_values_def)
  show "by_model False [''m''] [example_half_failed_record] ''m'' = (1, 0)"
    by (simp add: by_model_def d sum_items_def add_counts_def c)
  show "by_profile False [''m''] [example_half_failed_record] ''expert'' = (1, 0)"
    by (simp add: by_profile_def d sum_items_def add_counts_def item_counts_def c q)
  have qr: "question_result [''m''] example_half_failed_record = (False, False)"
    by (simp add: example_half_failed_find example_half_failed_empty)
  show "total_counts False [''m''] [example_half_failed_record] = (0, 0)"
    by (simp add: total_counts_def first_pass_step_def second_pass_step_def Let_def q qr
        del: question_result.simps has_valid_answer.simps)
qed

section \<open>Lemmas about the conversation builder\<close>

lemma check_images_attachable:
  "check_images fe skip paths0 = Inr image_paths \<Longrightarrow> \<forall>p \<in> set image_paths. is_http p \<or> fe p"
  by (auto simp: check_images_def Let_def filter_empty_conv split: if_splits)

lemma image_parts_all_images: "list_all is_image (image_parts fe enc ps)"
  by (induction ps) (auto simp: image_parts_def)

lemma image_parts_nonempty:
  "ps \<noteq> [] \<Longrightarrow> \<forall>p \<in> set ps. is_http p \<or> fe p \<Longrightarrow> image_parts fe enc ps \<noteq> []"
  by (cases ps) (auto simp: image_parts_def)

lemma list_ex_image_parts:
  "ps \<noteq> [] \<Longrightarrow> \<forall>p \<in> set ps. is_http p \<or> fe p \<Longrightarrow> list_ex is_image (image_parts fe enc ps)"
  using image_parts_nonempty[of ps fe enc] image_parts_all_images[of fe enc ps]
  by (cases "image_parts fe enc ps") (auto simp: list_ex_iff list_all_iff)

lemma has_image_carries: "has_image m \<Longrightarrow> carries_image m"
  by (auto simp: has_image_def carries_image_def)

lemma hist_ok_Nil [simp]: "hist_ok ps []"
  by (simp add: hist_ok_def)

lemma hist_ok_has_image:
  "hist_ok ps h \<Longrightarrow> list_ex has_image h = (h \<noteq> [] \<and> ps \<noteq> [])"
proof (cases h)
  case Nil
  then show ?thesis by simp
next
  case (Cons a as)
  assume ok: "hist_ok ps h"
  with Cons have t: "\<not> list_ex carries_image as" by (simp add: hist_ok_def)
  then have "\<not> list_ex has_image as" by (auto simp: list_ex_iff has_image_carries)
  moreover have "has_image a = (ps \<noteq> [])"
    using ok Cons by (auto simp: hist_ok_def has_image_carries split: if_splits)
  ultimately show ?thesis using Cons by simp
qed

lemma hist_ok_media_first_only: "hist_ok ps h \<Longrightarrow> media_first_only h"
  by (cases h) (auto simp: hist_ok_def media_first_only_def list_ex_iff filter_empty_conv)

lemma prepare_first_has_image:
  "has_image a \<Longrightarrow> prepare_messages fe enc (a # rest) paths = a # rest"
  by (auto simp: prepare_messages_def has_image_def Let_def split: option.splits msg_content.splits)

lemma prepare_no_paths [simp]: "prepare_messages fe enc msgs None = msgs"
  by (simp add: prepare_messages_def split: list.splits)

lemma has_image_user_turn [simp]: "has_image (user_turn ps) = list_ex is_image ps"
  by (simp add: has_image_def user_turn_def)

lemma carries_image_user_turn [simp]: "carries_image (user_turn ps) = list_ex is_image ps"
  by (simp add: carries_image_def user_turn_def)

lemma not_carries_assistant [simp]: "\<not> carries_image \<lparr> role = r, content = Plain s \<rparr>"
  by (simp add: carries_image_def)

text \<open>The request and the two possible new histories of one round body.\<close>

lemma round_messages:
  fixes prompt qt b :: string and e1 e2 :: "string \<Rightarrow> string" and fe :: "string \<Rightarrow> bool"
    and ps :: "string list" and h :: "message list"
  assumes ok: "hist_ok ps h" and att: "\<forall>p \<in> set ps. is_http p \<or> fe p"
  defines "cur \<equiv> user_turn ((if \<not> list_ex has_image h \<and> ps \<noteq> [] then image_parts fe e1 ps else [])
                              @ [TextPart prompt])"
  defines "msgs \<equiv> prepare_messages fe e2 (h @ [cur]) (if ps \<noteq> [] then Some ps else None)"
  shows "msgs = h @ [cur]" and "take (length h) msgs = h" and "last msgs = cur"
    and "media_first_only msgs" and "msgs \<noteq> []" and "ps \<noteq> [] \<longrightarrow> has_image (hd msgs)"
    and "hist_ok ps (h @ [user_turn ((if \<not> list_ex has_image h \<and> ps \<noteq> []
                                  then (case content cur of Parts xs \<Rightarrow> filter is_image xs | Plain s \<Rightarrow> [])
                                  else []) @ [TextPart qt]),
                          \<lparr> role = ''assistant'', content = Plain b \<rparr>])"
proof -
  have hi: "list_ex has_image h = (h \<noteq> [] \<and> ps \<noteq> [])" by (rule hist_ok_has_image[OF ok])
  have imgs: "ps \<noteq> [] \<Longrightarrow> list_ex is_image (image_parts fe e1 ps)"
    using att by (simp add: list_ex_image_parts)
  show m: "msgs = h @ [cur]"
  proof (cases "ps = []")
    case True
    then show ?thesis by (simp add: msgs_def)
  next
    case False
    show ?thesis
    proof (cases h)
      case Nil
      have "has_image cur" using False Nil imgs by (simp add: cur_def)
      then show ?thesis using Nil by (simp add: msgs_def prepare_first_has_image)
    next
      case (Cons a as)
      then have "has_image a" using ok False by (auto simp: hist_ok_def split: if_splits)
      then show ?thesis using Cons by (simp add: msgs_def prepare_first_has_image)
    qed
  qed
  then show "take (length h) msgs = h" and "last msgs = cur" and "msgs \<noteq> []" by simp_all
  have cc: "carries_image cur = (h = [] \<and> ps \<noteq> [])"
    using hi imgs by (auto simp: cur_def)
  show "media_first_only msgs"
  proof (cases h)
    case Nil
    then show ?thesis using m by (simp add: media_first_only_def)
  next
    case (Cons a as)
    then have "\<not> list_ex carries_image as" using ok by (simp add: hist_ok_def)
    then have "filter carries_image as = []" by (auto simp: list_ex_iff filter_empty_conv)
    then show ?thesis using m Cons cc ok
      by (auto simp: media_first_only_def hist_ok_def list_ex_iff split: if_splits)
  qed
  show "ps \<noteq> [] \<longrightarrow> has_image (hd msgs)"
  proof (cases h)
    case Nil
    then show ?thesis using m imgs by (simp add: cur_def)
  next
    case (Cons a as)
    then show ?thesis using m ok by (auto simp: hist_ok_def split: if_splits)
  qed
  show "hist_ok ps (h @ [user_turn ((if \<not> list_ex has_image h \<and> ps \<noteq> []
                                  then (case content cur of Parts xs \<Rightarrow> filter is_image xs | Plain s \<Rightarrow> [])
                                  else []) @ [TextPart qt]),
                          \<lparr> role = ''assistant'', content = Plain b \<rparr>])"
  proof (cases h)
    case Nil
    show ?thesis
    proof (cases "ps = []")
      case True
      then show ?thesis using Nil by (simp add: hist_ok_def)
    next
      case False
      have "filter is_image (image_parts fe e1 ps @ [TextPart prompt]) = image_parts fe e1 ps"
        using image_parts_all_images[of fe e1 ps] by (simp add: list_all_iff filter_id_conv)
      then show ?thesis using Nil False imgs
        by (simp add: hist_ok_def cur_def user_turn_def[of "_ @ [TextPart prompt]"])
    qed
  next
    case (Cons a as)
    then show ?thesis using ok hi
      by (auto simp: hist_ok_def list_ex_iff split: if_splits)
  qed
qed

lemma list_all_update:
  "list_all P al \<Longrightarrow> P (k, v) \<Longrightarrow> list_all P (AList.update k v al)"
  by (induction al) auto

lemma hist_ok_history_of:
  "media_inv ps st \<Longrightarrow> hist_ok ps (history_of st mn)"
  by (auto simp: media_inv_def history_of_def list_all_iff split: option.splits dest!: map_of_SomeD)

lemma media_inv_same:
  "media_inv ps s \<Longrightarrow> conversation_history s' = conversation_history s \<Longrightarrow>
     requests s' = requests s \<Longrightarrow> media_inv ps s'"
  by (simp add: media_inv_def)

lemma round_failed_fields [simp]:
  "conversation_history (round_failed rk mn e s) = conversation_history s"
  "requests (round_failed rk mn e s) = requests s"
  by (simp_all add: round_failed_def store_result_def)

lemma store_result_fields [simp]:
  "conversation_history (store_result rk mn r s) = conversation_history s"
  "requests (store_result rk mn r s) = requests s"
  by (simp_all add: store_result_def)

lemma media_inv_request:
  assumes "media_inv ps s" and "hist_ok ps h1" and "media_first_only msgs" and "msgs \<noteq> []"
    and "ps \<noteq> [] \<longrightarrow> has_image (hd msgs)"
    and "conversation_history s' = AList.update mn h1 (conversation_history s)"
    and "requests s' = (mn, msgs) # requests s"
  shows "media_inv ps s'"
  using assms by (simp add: media_inv_def list_all_update)

lemma media_inv_commit:
  assumes "media_inv ps s" and "hist_ok ps h2"
    and "conversation_history s' = AList.update mn h2 (conversation_history s)"
    and "requests s' = requests s"
  shows "media_inv ps s'"
  using assms by (simp add: media_inv_def list_all_update)

lemma round_body_media_inv:
  assumes inv: "media_inv ps st0" and att: "\<forall>p \<in> set ps. is_http p \<or> file_exists c p"
  shows "media_inv ps (round_body c prof ps q st0 mn)"
proof -
  define st where "st = (if map_of (rounds_data st0) (round_key q) = None
                then st0\<lparr>rounds_data := AList.update (round_key q) [] (rounds_data st0)\<rparr> else st0)"
  have inv1: "media_inv ps st"
    using inv by (simp add: st_def media_inv_def)
  show ?thesis
  proof (cases "get_prompt c prof q")
    case (Inl e)
    then have "round_body c prof ps q st0 mn = round_failed (round_key q) mn e st"
      by (simp add: round_body_def Let_def st_def[symmetric])
    then show ?thesis
      by (simp add: media_inv_same[OF inv1])
  next
    case (Inr prompt)
    note P = Inr
    define h where "h = history_of st mn"
    define cur where "cur = \<lparr> role = ''user'', content = Parts
       ((if \<not> list_ex has_image h \<and> ps \<noteq> [] then image_parts (file_exists c) (encode c) ps else [])
        @ [TextPart prompt]) \<rparr>"
    define msgs where "msgs = prepare_messages (file_exists c) (encode_api c) (h @ [cur])
       (if ps \<noteq> [] then Some ps else None)"
    define st1 where "st1 = st\<lparr>conversation_history := AList.update mn (take (length h) msgs) (conversation_history st),
                          requests := (mn, msgs) # requests st\<rparr>"
    have ok: "hist_ok ps h" unfolding h_def by (rule hist_ok_history_of[OF inv1])
    note rm = round_messages(1-6)[OF ok att, where ?e1.0 = "encode c" and prompt = prompt
          and ?e2.0 = "encode_api c", unfolded user_turn_def, folded cur_def, folded msgs_def]
      round_messages(7)[OF ok att, where ?e1.0 = "encode c" and prompt = prompt,
        unfolded user_turn_def, folded cur_def]
    have inv2: "media_inv ps st1"
      by (rule media_inv_request[OF inv1 _ rm(4,5,6), where ?h1.0 = "take (length h) msgs" and mn = mn])
         (simp_all add: st1_def rm(2) ok)
    show ?thesis
    proof (cases "network c mn msgs")
      case (Inl e)
      have "round_body c prof ps q st0 mn = round_failed (round_key q) mn e st1"
        unfolding round_body_def Let_def st_def[symmetric] P sum.case h_def[symmetric]
          cur_def[symmetric] msgs_def[symmetric] st1_def[symmetric] Inl
        by simp
      then show ?thesis
        by (simp add: media_inv_same[OF inv2])
    next
      case (Inr r)
      obtain a t raw where r: "r = (a, t, raw)" by (cases r)
      obtain ex fb orig where x: "extractor c a = (ex, fb, orig)" by (cases "extractor c a")
      define h2 where "h2 = take (length h) msgs @
          [\<lparr> role = ''user'', content = Parts
              ((if \<not> list_ex has_image (take (length h) msgs) \<and> ps \<noteq> []
                then (case content (last msgs) of Parts xs \<Rightarrow> filter is_image xs | Plain s \<Rightarrow> [])
                else []) @ [TextPart (question_text q)]) \<rparr>,
           \<lparr> role = ''assistant'', content = Plain (brief_answer ex orig) \<rparr>]"
      define st2 where "st2 = st1\<lparr>conversation_history := AList.update mn h2 (conversation_history st1),
                                  total_response_time := total_response_time st1 + t\<rparr>"
      have ok2: "hist_ok ps h2"
        unfolding h2_def rm(2) rm(3) by (rule rm(7))
      have inv3: "media_inv ps st2"
        by (rule media_inv_commit[OF inv2 ok2, where mn = mn]) (simp_all add: st2_def)
      show ?thesis
      proof (cases "judge c (if \<not> fb then orig else ex) q")
        case (Inl e)
        have "round_body c prof ps q st0 mn = round_failed (round_key q) mn e st2"
          unfolding round_body_def Let_def st_def[symmetric] P sum.case h_def[symmetric]
            cur_def[symmetric] msgs_def[symmetric] st1_def[symmetric] Inr r prod.case x
            h2_def[symmetric] st2_def[symmetric] Inl
          by simp
        then show ?thesis
          by (simp add: media_inv_same[OF inv3])
      next
        case jr: (Inr v)
        obtain verdict why jt where v: "v = (verdict, why, jt)" by (cases v)
        have "\<exists>res s'. round_body c prof ps q st0 mn = store_result (round_key q) mn res s' \<and>
                 conversation_history s' = conversation_history st2 \<and> requests s' = requests st2"
          unfolding round_body_def Let_def st_def[symmetric] P sum.case h_def[symmetric]
            cur_def[symmetric] msgs_def[symmetric] st1_def[symmetric] Inr r prod.case x
            h2_def[symmetric] st2_def[symmetric] jr v
          by (intro exI conjI) (rule refl, simp_all)
        then obtain res s' where "round_body c prof ps q st0 mn = store_result (round_key q) mn res s'"
          and "conversation_history s' = conversation_history st2" and "requests s' = requests st2"
          by blast
        then show ?thesis
          by (simp add: media_inv_same[OF inv3])
      qed
    qed
  qed
qed

lemma media_inv_initial: "media_inv ps (initial_state ms)"
  by (simp add: media_inv_def initial_state_def list_all_iff)

lemma run_rounds_media_inv:
  assumes "\<forall>p \<in> set ps. is_http p \<or> file_exists c p"
  shows "media_inv ps (run_rounds c prof ps qs ms)"
proof -
  have inner: "media_inv ps (foldl (round_body c prof ps q) s ms')" if "media_inv ps s" for q s ms'
    using that by (induction ms' arbitrary: s) (auto intro: round_body_media_inv[OF _ assms])
  have "media_inv ps (foldl (\<lambda>st q. foldl (round_body c prof ps q) st ms) s qs)"
    if "media_inv ps s" for s
    using that by (induction qs arbitrary: s) (auto intro: inner)
  then show ?thesis by (simp add: run_rounds_def media_inv_initial)
qed

lemma temp_file_differs: "temp_file_of p \<noteq> p" "p \<noteq> temp_file_of p"
  by (simp_all add: temp_file_of_def)

lemma temp_file_sibling: "parent (temp_file_of p) = parent p"
  by (simp add: temp_file_of_def parent_def)

lemma atomic_write_steps:
  "\<exists>f1 f2. snd (atomic_write sys p data f) = [f1, f2] \<and>
     f1 p = f p \<and> (f2 p = f p \<or> fst (atomic_write sys p data f) \<and> f2 p = Some data)"
  by (auto simp: atomic_write_def Let_def write_file_def temp_file_differs
      split: write_outcome.splits)

lemma atomic_write_failure:
  "\<not> fst (atomic_write sys p data f) \<Longrightarrow> last (snd (atomic_write sys p data f)) p = f p"
  by (auto simp: atomic_write_def Let_def write_file_def temp_file_differs
      split: write_outcome.splits if_splits)

lemma atomic_write_success:
  "fst (atomic_write sys p data f) \<Longrightarrow>
     on_write sys = Written \<and> on_replace sys \<and>
     last (snd (atomic_write sys p data f)) p = Some data \<and>
     last (snd (atomic_write sys p data f)) (temp_file_of p) = None"
  by (auto simp: atomic_write_def Let_def write_file_def temp_file_differs
      split: write_outcome.splits if_splits)

lemma atomic_write_done: "fst (atomic_write sys p data f) = (on_write sys = Written \<and> on_replace sys)"
  by (simp add: atomic_write_def Let_def)

lemma atomic_write_others:
  "q \<noteq> p \<Longrightarrow> q \<noteq> temp_file_of p \<Longrightarrow> g \<in> set (snd (atomic_write sys p data f)) \<Longrightarrow> g q = f q"
  by (auto simp: atomic_write_def Let_def write_file_def temp_file_differs
      split: write_outcome.splits if_splits)

lemma atomic_write_cleanup:
  "\<not> fst (atomic_write sys p data f) \<Longrightarrow> on_unlink sys \<Longrightarrow>
     last (snd (atomic_write sys p data f)) (temp_file_of p) = None"
  by (auto simp: atomic_write_def Let_def write_file_def temp_file_differs
      split: write_outcome.splits if_splits)
lemma atomic_write_observed:
  "g \<in> set (snd (atomic_write sys p data f)) \<Longrightarrow>
     g p = f p \<or> on_write sys = Written \<and> on_replace sys \<and> g p = Some data"
  by (auto simp: atomic_write_def Let_def write_file_def temp_file_differs
      split: write_outcome.splits if_splits)

lemma atomic_write_nonempty: "snd (atomic_write sys p data f) \<noteq> []"
  by (simp add: atomic_write_def Let_def)

lemma flush_json_buffer_unreadable:
  assumes "result_buffers st (mn, prof) = Some buffer" and "buffer \<noteq> []"
    and "output_files (mn, prof) = Some p"
    and "merged_document cd (files st p) buffer = Inl e"
  shows "flush_json_buffer sys cd mn prof output_files st =
           Inr (st\<lparr>error_log := error_log st @ [e]\<rparr>, [])"
  using assms by (simp add: flush_json_buffer_def)

lemma flush_json_buffer_write:
  assumes "result_buffers st (mn, prof) = Some buffer" and "buffer \<noteq> []"
    and "output_files (mn, prof) = Some p"
    and "merged_document cd (files st p) buffer = Inr d"
  shows "flush_json_buffer sys cd mn prof output_files st =
           Inr (if fst (atomic_write sys p (json_dump cd d) (files st))
                then st\<lparr>files := last (snd (atomic_write sys p (json_dump cd d) (files st))),
                        result_buffers := (result_buffers st)((mn, prof) \<mapsto> [])\<rparr>
                else st\<lparr>files := last (snd (atomic_write sys p (json_dump cd d) (files st))),
                        error_log := error_log st @
                          [''writing the temporary file failed'', ''batch save failed'']\<rparr>,
                snd (atomic_write sys p (json_dump cd d) (files st)))"
  using assms by (simp add: flush_json_buffer_def split: prod.splits)

lemma update_statistics_write:
  assumes "final_replacement cd jsonl (files st p) = Replace data"
  shows "update_statistics sys cd jsonl p st =
           (if fst (atomic_write sys p data (files st))
            then st\<lparr>files := last (snd (atomic_write sys p data (files st)))\<rparr>
            else st\<lparr>files := last (snd (atomic_write sys p data (files st))),
                    error_log := error_log st @
                      [''writing the temporary file failed'', ''updating the statistics failed'']\<rparr>,
            snd (atomic_write sys p data (files st)))"
  using assms by (simp add: update_statistics_def split: prod.splits)

section \<open>Lemmas about the results stored by the multi-round loop\<close>

lemma stored_store_result_eq:
  "stored (store_result rk' mn' r st) rk m =
     (if rk = rk' \<and> m = mn' then Some r else stored st rk m)"
  by (auto simp: stored_def store_result_def update_conv' split: option.splits)

lemma stored_same_rounds_data:
  "rounds_data s' = rounds_data s \<Longrightarrow> stored s' rk m = stored s rk m"
  by (simp add: stored_def)

lemma stored_setdefault:
  "stored (if map_of (rounds_data st) rk' = None
           then st\<lparr>rounds_data := AList.update rk' [] (rounds_data st)\<rparr> else st) rk m =
     stored st rk m"
  by (auto simp: stored_def update_conv')

lemma round_body_shape:
  "\<exists>r s. round_body c prof ps q st mn = store_result (round_key q) mn r s \<and>
         rounds_data s =
           rounds_data (if map_of (rounds_data st) (round_key q) = None
                        then st\<lparr>rounds_data := AList.update (round_key q) [] (rounds_data st)\<rparr>
                        else st)"
proof -
  define st1 where "st1 = (if map_of (rounds_data st) (round_key q) = None
                then st\<lparr>rounds_data := AList.update (round_key q) [] (rounds_data st)\<rparr> else st)"
  have f: "\<exists>r s. round_failed (round_key q) mn e s' = store_result (round_key q) mn r s \<and>
                 rounds_data s = rounds_data st1"
    if "rounds_data s' = rounds_data st1" for e s'
    using that by (auto simp: round_failed_def intro!: exI[of _ "error_result mn e"]
        exI[of _ "s'\<lparr>all_rounds_correct := False\<rparr>"])
  show ?thesis
  proof (cases "get_prompt c prof q")
    case (Inl e)
    then show ?thesis
      using f[of st1 e] by (simp add: round_body_def Let_def st1_def[symmetric])
  next
    case (Inr prompt)
    note P = Inr
    define h where "h = history_of st1 mn"
    define cur where "cur = \<lparr> role = ''user'', content = Parts
       ((if \<not> list_ex has_image h \<and> ps \<noteq> [] then image_parts (file_exists c) (encode c) ps else [])
        @ [TextPart prompt]) \<rparr>"
    define msgs where "msgs = prepare_messages (file_exists c) (encode_api c) (h @ [cur])
       (if ps \<noteq> [] then Some ps else None)"
    define st2 where "st2 = st1\<lparr>conversation_history :=
                              AList.update mn (take (length h) msgs) (conversation_history st1),
                            requests := (mn, msgs) # requests st1\<rparr>"
    have r2: "rounds_data st2 = rounds_data st1" by (simp add: st2_def)
    show ?thesis
    proof (cases "network c mn msgs")
      case (Inl e)
      have "round_body c prof ps q st mn = round_failed (round_key q) mn e st2"
        unfolding round_body_def Let_def st1_def[symmetric] P sum.case h_def[symmetric]
          cur_def[symmetric] msgs_def[symmetric] st2_def[symmetric] Inl
        by simp
      then show ?thesis using f[OF r2, of e] by (simp add: st1_def)
    next
      case (Inr r)
      obtain a t raw where r: "r = (a, t, raw)" by (cases r)
      obtain ex fb orig where x: "extractor c a = (ex, fb, orig)" by (cases "extractor c a")
      define h2 where "h2 = take (length h) msgs @
          [\<lparr> role = ''user'', content = Parts
              ((if \<not> list_ex has_image (take (length h) msgs) \<and> ps \<noteq> []
                then (case content (last msgs) of Parts xs \<Rightarrow> filter is_image xs | Plain s \<Rightarrow> [])
                else []) @ [TextPart (question_text q)]) \<rparr>,
           \<lparr> role = ''assistant'', content = Plain (brief_answer ex orig) \<rparr>]"
      define st3 where "st3 = st2\<lparr>conversation_history := AList.update mn h2 (conversation_history st2),
                                  total_response_time := total_response_time st2 + t\<rparr>"
      have r3: "rounds_data st3 = rounds_data st1" by (simp add: st3_def r2)
      show ?thesis
      proof (cases "judge c (if \<not> fb then orig else ex) q")
        case (Inl e)
        have "round_body c prof ps q st mn = round_failed (round_key q) mn e st3"
          unfolding round_body_def Let_def st1_def[symmetric] P sum.case h_def[symmetric]
            cur_def[symmetric] msgs_def[symmetric] st2_def[symmetric] Inr r prod.case x
            h2_def[symmetric] st3_def[symmetric] Inl
          by simp
        then show ?thesis using f[OF r3, of e] by (simp add: st1_def)
      next
        case jr: (Inr v)
        obtain verdict why jt where v: "v = (verdict, why, jt)" by (cases v)
        have "\<exists>res s'. round_body c prof ps q st mn = store_result (round_key q) mn res s' \<and>
                 rounds_data s' = rounds_data st3"
          unfolding round_body_def Let_def st1_def[symmetric] P sum.case h_def[symmetric]
            cur_def[symmetric] msgs_def[symmetric] st2_def[symmetric] Inr r prod.case x
            h2_def[symmetric] st3_def[symmetric] jr v
          by (intro exI conjI) (rule refl, simp)
        then show ?thesis using r3 by (auto simp: st1_def)
      qed
    qed
  qed
qed

lemma round_body_stored:
  "\<exists>r. \<forall>rk m. stored (round_body c prof ps q st mn) rk m =
           (if rk = round_key q \<and> m = mn then Some r else stored st rk m)"
proof -
  from round_body_shape[of c prof ps q st mn] obtain r s where
    e: "round_body c prof ps q st mn = store_result (round_key q) mn r s"
    and d: "rounds_data s =
           rounds_data (if map_of (rounds_data st) (round_key q) = None
                        then st\<lparr>rounds_data := AList.update (round_key q) [] (rounds_data st)\<rparr>
                        else st)"
    by blast
  have "stored s rk m = stored st rk m" for rk m
    using stored_same_rounds_data[OF d, of rk m] stored_setdefault[of st "round_key q" rk m] by simp
  then show ?thesis
    unfolding e by (intro exI[of _ r]) (simp add: stored_store_result_eq)
qed

lemma fold_rounds_invariant:
  assumes est: "\<And>s. P (round_body c prof ps q s mn)"
    and pres: "\<And>s q' mn'. q' \<in> set qs \<Longrightarrow> P s \<Longrightarrow> P (round_body c prof ps q' s mn')"
    and q: "q \<in> set qs" and mn: "mn \<in> set ms"
  shows "P (run_rounds c prof ps qs ms)"
proof -
  have inner_pres: "P (foldl (round_body c prof ps q') s ms')" if "q' \<in> set qs" "P s" for q' s ms'
    using that(2) by (induction ms' arbitrary: s) (auto intro: pres[OF that(1)])
  have inner_est: "P (foldl (round_body c prof ps q) s ms')" if "mn \<in> set ms'" for s ms'
    using that
  proof (induction ms' arbitrary: s)
    case Nil
    then show ?case by simp
  next
    case (Cons x xs)
    show ?case
    proof (cases "x = mn")
      case True
      have "P (foldl (round_body c prof ps q) (round_body c prof ps q s mn) xs)"
        by (rule inner_pres[OF q est])
      with True show ?thesis by simp
    next
      case False
      with Cons show ?thesis by simp
    qed
  qed
  have outer_pres: "P (foldl (\<lambda>st q. foldl (round_body c prof ps q) st ms) s qs')"
    if "set qs' \<subseteq> set qs" "P s" for s qs'
    using that by (induction qs' arbitrary: s) (auto intro: inner_pres)
  have outer_est: "P (foldl (\<lambda>st q. foldl (round_body c prof ps q) st ms) s qs')"
    if "set qs' \<subseteq> set qs" "q \<in> set qs'" for s qs'
    using that
  proof (induction qs' arbitrary: s)
    case Nil
    then show ?case by simp
  next
    case (Cons x xs)
    show ?case
    proof (cases "x = q")
      case True
      have "P (foldl (round_body c prof ps q) s ms)" by (rule inner_est[OF mn])
      moreover have "set xs \<subseteq> set qs" using Cons.prems(1) by simp
      ultimately have "P (foldl (\<lambda>st q. foldl (round_body c prof ps q) st ms)
                          (foldl (round_body c prof ps q) s ms) xs)"
        by (rule outer_pres[rotated])
      with True show ?thesis by simp
    next
      case False
      with Cons show ?thesis by simp
    qed
  qed
  show ?thesis
    unfolding run_rounds_def by (rule outer_est[OF subset_refl q])
qed

lemma run_rounds_stored:
  assumes "q \<in> set qs" and "mn \<in> set ms"
  shows "stored (run_rounds c prof ps qs ms) (round_key q) mn \<noteq> None"
proof (rule fold_rounds_invariant[where P = "\<lambda>s. stored s (round_key q) mn \<noteq> None", OF _ _ assms])
  fix s
  show "stored (round_body c prof ps q s mn) (round_key q) mn \<noteq> None"
    using round_body_stored[of c prof ps q s mn] by auto
next
  fix s q' mn'
  assume "stored s (round_key q) mn \<noteq> None"
  then show "stored (round_body c prof ps q' s mn') (round_key q) mn \<noteq> None"
    using round_body_stored[of c prof ps q' s mn'] by auto
qed


lemma collect_rounds_stored:
  "collect_rounds (rounds_data st) mn qs =
     (concat (map (\<lambda>q. case stored st (round_key q) mn of
                         None \<Rightarrow> [] | Some r \<Rightarrow> [make_round_item q r]) qs),
      list_all (\<lambda>q. case stored st (round_key q) mn of None \<Rightarrow> True | Some r \<Rightarrow> is_correct r) qs)"
  by (induction qs) (auto simp: stored_def Let_def split: option.splits)

lemma summarize_model_stored:
  "rounds (summarize_model st qs mn) =
     concat (map (\<lambda>q. case stored st (round_key q) mn of
                        None \<Rightarrow> [] | Some r \<Rightarrow> [make_round_item q r]) qs)"
  "mr_is_correct (summarize_model st qs mn) =
     list_all (\<lambda>q. case stored st (round_key q) mn of None \<Rightarrow> True | Some r \<Rightarrow> is_correct r) qs"
  by (simp_all add: summarize_model_def collect_rounds_stored)

lemma round_name_make_round_item [simp]: "round_name (make_round_item q r) = round_key q"
  by (simp add: make_round_item_def round_result.defs)

lemma summarize_model_run_names:
  assumes "mn \<in> set ms"
  shows "map round_name (rounds (summarize_model (run_rounds c prof ps qs ms) qs mn)) = map round_key qs"
proof -
  have "map round_name (concat (map (\<lambda>q. case stored (run_rounds c prof ps qs ms) (round_key q) mn of
                        None \<Rightarrow> [] | Some r \<Rightarrow> [make_round_item q r]) qs')) = map round_key qs'"
    if "set qs' \<subseteq> set qs" for qs'
    using that
  proof (induction qs')
    case Nil
    then show ?case by simp
  next
    case (Cons x xs)
    then have "x \<in> set qs" by simp
    from run_rounds_stored[OF this assms, of c prof ps] obtain r where
      "stored (run_rounds c prof ps qs ms) (round_key x) mn = Some r" by blast
    with Cons show ?case by simp
  qed
  then show ?thesis by (simp add: summarize_model_stored)
qed



lemma error_make_round_item [simp]: "error (make_round_item q r) = error r"
  by (simp add: make_round_item_def round_result.defs)


section \<open>Theorems\<close>

text \<open>
  C8. For a worker budget W >= 1 and C >= 1 combinations the scheduler gives every
  combination max 1 (W div C) inner workers, runs min C W combinations at a time, and
  the effective total, the product of the two, never exceeds W; the unused capacity
  W - total is reported as a warning exactly when it is positive. When
  per_combo * C <= W, all C combinations run concurrently with per_combo inner workers
  each and the effective total is per_combo * C. For W = 10 and C = 3: per-combo
  workers 3, 3 concurrent combinations, effective total 9, one unit of unused capacity
  reported.
\<close>

theorem C8_fair_share:
  assumes "1 \<le> W" and "1 \<le> C"
  shows "\<exists>s. fair_share W C = Some s \<and>
           actual_per_combo s = max 1 (W div C) \<and>
           combo_workers s = min C W \<and>
           actual_total_workers s = combo_workers s * actual_per_combo s \<and>
           actual_total_workers s \<le> W \<and>
           unused_warning s =
             (if actual_total_workers s < W then Some (W - actual_total_workers s) else None) \<and>
           (per_combo_workers W C * C \<le> W \<longrightarrow>
              combo_workers s = C \<and>
              actual_per_combo s = max 1 (W div C) \<and>
              actual_total_workers s = max 1 (W div C) * C \<and>
              unused_warning s =
                (if 0 < W - max 1 (W div C) * C then Some (W - max 1 (W div C) * C) else None)) \<and>
           fair_share 10 3 =
             Some \<lparr> combo_workers = 3, actual_per_combo = 3,
                    actual_total_workers = 9, unused_warning = Some 1 \<rparr>"
proof (cases "C \<le> W")
  case True
  have "0 < W div C"
    using assms(2) True by (subst pos_imp_zdiv_pos_iff) simp_all
  then have d: "1 \<le> W div C" by simp
  have "0 \<le> W mod C"
    using assms(2) by simp
  then have m: "W div C * C \<le> W"
    using div_mult_mod_eq[of W C] by linarith
  have ex: "fair_share 10 3 =
      Some \<lparr> combo_workers = 3, actual_per_combo = 3, actual_total_workers = 9,
             unused_warning = Some 1 \<rparr>"
    by (simp add: fair_share_def per_combo_workers_def Let_def)
  show ?thesis
    using assms True d m unfolding ex
    by (simp add: fair_share_def per_combo_workers_def Let_def max_def min_def mult.commute)
next
  case False
  with assms have z: "W div C = 0"
    by (simp add: div_pos_pos_trivial)
  have ex: "fair_share 10 3 =
      Some \<lparr> combo_workers = 3, actual_per_combo = 3, actual_total_workers = 9,
             unused_warning = Some 1 \<rparr>"
    by (simp add: fair_share_def per_combo_workers_def Let_def)
  show ?thesis
    using assms False z unfolding ex
    by (simp add: fair_share_def per_combo_workers_def Let_def max_def min_def)
qed

theorem C8_fair_share_witness:
  "(1::int) \<le> 10 \<and> (1::int) \<le> 3 \<and>
   per_combo_workers 10 3 * 3 \<le> 10 \<and>
   (\<exists>s. fair_share 10 3 = Some s \<and> combo_workers s = 3 \<and> actual_per_combo s = 3 \<and>
        actual_total_workers s = 9 \<and> unused_warning s = Some 1) \<and>
   (\<exists>s. fair_share 5 7 = Some s \<and> combo_workers s = 5 \<and> actual_per_combo s = 1 \<and>
        actual_total_workers s = 5 \<and> unused_warning s = None)"
  using C8_fair_share [of 10 3] C8_fair_share [of 5 7]
  by (auto simp: per_combo_workers_def)

text \<open>
  C5. The structured-marker stage matches balanced nested braces: when the first boxed
  marker of the (stripped) response is followed by a brace-balanced content with a
  non-blank text and its closing brace, the extractor returns the content of the last
  top-level marker, that is the result of the same scan on the rest of the text after
  that closing brace if there is one, and this content otherwise, with structured = true.
  For the input \boxed{A\boxed{B}C} the result is A\boxed{B}C, structured = true (the
  witness).
\<close>

theorem C5_nested_boxed_extraction:
  assumes "balanced body"
    and "strip body \<noteq> []"
    and "strip response = pre @ boxed_marker @ body @ CHR ''}'' # rest"
    and "str_find (strip response) boxed_marker 0 = Some (length pre)"
  shows "extract_answer_from_response extract_json_from_text response =
           Some (Inr ((case extract_boxed_content rest of Some r \<Rightarrow> r | None \<Rightarrow> strip body),
                      True, strip response))"
proof -
  have "extract_boxed_content (strip response) =
          (case extract_boxed_content rest of
             Some r \<Rightarrow> Some r
           | None \<Rightarrow> if strip body \<noteq> [] then Some (strip body) else None)"
    using extract_boxed_first_match[OF assms(1), of pre rest] assms(3,4) by simp
  then show ?thesis
    using assms(2)
    by (simp add: extract_answer_from_response_def Let_def split: option.splits)
qed

theorem C5_nested_boxed_extraction_witness:
  "balanced (''A'' @ boxed_marker @ ''B}C'') \<and>
   strip (''A'' @ boxed_marker @ ''B}C'') \<noteq> [] \<and>
   strip (boxed_marker @ ''A'' @ boxed_marker @ ''B}C}'') =
     [] @ boxed_marker @ (''A'' @ boxed_marker @ ''B}C'') @ CHR ''}'' # [] \<and>
   str_find (strip (boxed_marker @ ''A'' @ boxed_marker @ ''B}C}'')) boxed_marker 0 = Some (length ([] :: string)) \<and>
   extract_answer_from_response (\<lambda>_. []) (boxed_marker @ ''A'' @ boxed_marker @ ''B}C}'') =
     Some (Inr (''A'' @ boxed_marker @ ''B}C'', True, boxed_marker @ ''A'' @ boxed_marker @ ''B}C}''))"
proof -
  have bB: "balanced ''B''" by (simp add: bal_char bal_nil)
  have bC: "balanced ''C''" by (simp add: bal_char bal_nil)
  have bn: "balanced ''{B}C''" using bal_nest[OF bB bC] by simp
  have b: "balanced (''A'' @ boxed_marker @ ''B}C'')"
    using bn by (simp add: boxed_marker_def bal_char)
  have s1: "strip (''A'' @ boxed_marker @ ''B}C'') = ''A'' @ boxed_marker @ ''B}C''"
    by (simp add: strip_def isspace_def boxed_marker_def)
  have s2: "strip (boxed_marker @ ''A'' @ boxed_marker @ ''B}C}'') =
              [] @ boxed_marker @ (''A'' @ boxed_marker @ ''B}C'') @ CHR ''}'' # []"
    by (simp add: strip_def isspace_def boxed_marker_def)
  have ne: "strip (''A'' @ boxed_marker @ ''B}C'') \<noteq> []"
    by (subst s1) simp
  have f: "str_find (strip (boxed_marker @ ''A'' @ boxed_marker @ ''B}C}'')) boxed_marker 0
             = Some (length ([] :: string))"
    by (simp add: strip_def isspace_def boxed_marker_def str_find_def)
  have e: "extract_boxed_content [] = None"
    by (simp add: extract_boxed_content_def boxed_loop.simps str_find_def boxed_marker_def)
  from C5_nested_boxed_extraction[OF b ne s2 f, of "\<lambda>_. []"] b ne s2 f
  show ?thesis unfolding s1 by (simp add: e)
qed

text \<open>
  C6. On a response of 400 characters without a marker and without an embedded object
  the trailing-window stage returns the last 40 characters (an estimate of 11 tokens):
  each step of the loop keeps one tenth of the slice, it does not remove one tenth.
\<close>

theorem C6_trailing_window_400:
  "extract_answer_from_response (\<lambda>_. []) (replicate 400 (CHR ''a'')) =
     Some (Inr (replicate 40 (CHR ''a''), False, replicate 400 (CHR ''a''))) \<and>
   estimate_text_tokens (replicate 40 (CHR ''a'')) = 11"
proof -
  let ?t = "replicate 400 (CHR ''a'')"
  have s: "strip ?t = ?t"
    by (simp add: strip_def isspace_def)
  have b: "extract_boxed_content ?t = None"
    by (rule no_backslash_extract) simp
  have t: "truncate_last_n_tokens ?t 100 = Some (replicate 40 (CHR ''a''))"
    using truncate_long[of ?t] by simp
  have s40: "strip (replicate 40 (CHR ''a'')) = replicate 40 (CHR ''a'')"
    by (simp add: strip_def isspace_def)
  show ?thesis
    by (simp add: extract_answer_from_response_def Let_def s b t s40 estimate_40)
qed

text \<open>
  C1. Two stored records of the same question for the model \<open>m\<close>: one whose answer is
  blank, and a two-round record whose first round is answered and whose second round
  is blank. The emptiness test of the deduplication takes the two-round record as
  empty, the scorer takes its first round as answered. So the deduplicated set depends
  on the storage order: with the blank record first it holds the blank record and the
  answered round is scored nowhere, with the two-round record first it holds that
  record and per-round scoring counts its first round. On resume the question is not
  among the completed ones in either order. With a blank record and a record answered
  in full, the set holds the answered record in either order.
\<close>

theorem C1_dedup_order_dependent:
  "question_id example_empty_record = question_id example_partial_record \<and>
   all_units_blank example_empty_record \<and>
   \<not> unit_blank example_partial_entry \<and>
   \<not> has_valid_answer [''m''] example_partial_record \<and>
   count_item True example_partial_record ''model'' example_partial_entry (Some ''m'') = (1, 1) \<and>
   deduplicate_results [''m''] [example_empty_record, example_partial_record] =
     [example_empty_record] \<and>
   deduplicate_results [''m''] [example_partial_record, example_empty_record] =
     [example_partial_record] \<and>
   by_model True [''m''] [example_empty_record, example_partial_record] ''m'' = (0, 0) \<and>
   by_model True [''m''] [example_partial_record, example_empty_record] ''m'' = (1, 1) \<and>
   total_counts True [''m''] [example_empty_record, example_partial_record] = (0, 0) \<and>
   total_counts True [''m''] [example_partial_record, example_empty_record] = (1, 1) \<and>
   ''q1'' \<notin> completed_ids (resume_scan ''m'' [example_empty_record, example_partial_record]) \<and>
   ''q1'' \<notin> completed_ids (resume_scan ''m'' [example_partial_record, example_empty_record]) \<and>
   deduplicate_results [''m''] [example_empty_record, example_answered_record] =
     [example_answered_record] \<and>
   deduplicate_results [''m''] [example_answered_record, example_empty_record] =
     [example_answered_record]"
proof -
  have i: "question_id example_empty_record = question_id example_partial_record"
    by (simp add: example_ids)
  have s1: "all_units_blank example_empty_record" by code_simp
  have s2: "\<not> unit_blank example_partial_entry" by code_simp
  have v: "\<not> has_valid_answer [''m''] example_partial_record" by (rule example_partial_valid)
  have c: "count_item True example_partial_record ''model'' example_partial_entry (Some ''m'') = (1, 1)"
    by code_simp
  have d1: "deduplicate_results [''m''] [example_empty_record, example_partial_record] =
     [example_empty_record]"
    by code_simp
  have d2: "deduplicate_results [''m''] [example_partial_record, example_empty_record] =
     [example_partial_record]"
    by code_simp
  have b1: "by_model True [''m''] [example_empty_record, example_partial_record] ''m'' = (0, 0)"
    by code_simp
  have b2: "by_model True [''m''] [example_partial_record, example_empty_record] ''m'' = (1, 1)"
    by code_simp
  have t1: "total_counts True [''m''] [example_empty_record, example_partial_record] = (0, 0)"
    by code_simp
  have t2: "total_counts True [''m''] [example_partial_record, example_empty_record] = (1, 1)"
    by code_simp
  have ee: "is_answer_empty example_empty_record None (Some ''m'')" by code_simp
  have pe: "is_answer_empty example_partial_record None (Some ''m'')" by code_simp
  have r1: "''q1'' \<notin> completed_ids (resume_scan ''m'' [example_empty_record, example_partial_record])"
    using ee pe by (auto simp: resume_completed)
  have r2: "''q1'' \<notin> completed_ids (resume_scan ''m'' [example_partial_record, example_empty_record])"
    using ee pe by (auto simp: resume_completed)
  have a1: "deduplicate_results [''m''] [example_empty_record, example_answered_record] =
     [example_answered_record]"
    by code_simp
  have a2: "deduplicate_results [''m''] [example_answered_record, example_empty_record] =
     [example_answered_record]"
    by code_simp
  show ?thesis
    using i s1 s2 v c d1 d2 b1 b2 t1 t2 r1 r2 a1 a2 by blast
qed

text \<open>
  C2. The exclusion of empty units is not uniform. In whole-item scoring, a two-round
  record whose second round is blank is left out of the overall total and counted as
  one incorrect item in the per-model, per-profile and per-classification breakdowns;
  the same record with the entry of its second round missing is counted as one
  incorrect item by all four. In per-round scoring the four breakdowns agree: they
  count the answered round and leave the blank or missing one out. A single-round
  evaluation whose model answered with an empty text is counted as an incorrect answer
  by calculate_statistics, which has no emptiness test, while the record converted
  from it is left out by calculate_output_statistics.
\<close>

theorem C2_empty_unit_not_uniform:
  "answer_blank (map_of [(''round1'', JStr ''A''), (''round2'', JStr [])] ''round2'') \<and>
   answer example_partial_entry = Some (JDict [(''round1'', JStr ''A''), (''round2'', JStr [])]) \<and>
   total_counts False [''m''] [example_partial_record] = (0, 0) \<and>
   by_model False [''m''] [example_partial_record] ''m'' = (1, 0) \<and>
   by_profile False [''m''] [example_partial_record] ''expert'' = (1, 0) \<and>
   by_category False [''m''] [example_partial_record] ''difficulty'' (JStr ''hard'') = Inr (Some (1, 0)) \<and>
   answer_blank (map_of [(''round1'', JStr ''A'')] ''round2'') \<and>
   answer example_missing_entry = Some (JDict [(''round1'', JStr ''A'')]) \<and>
   total_counts False [''m''] [example_missing_record] = (1, 0) \<and>
   by_model False [''m''] [example_missing_record] ''m'' = (1, 0) \<and>
   by_profile False [''m''] [example_missing_record] ''expert'' = (1, 0) \<and>
   by_category False [''m''] [example_missing_record] ''difficulty'' (JStr ''hard'') = Inr (Some (1, 0)) \<and>
   total_counts True [''m''] [example_partial_record] = (1, 1) \<and>
   by_model True [''m''] [example_partial_record] ''m'' = (1, 1) \<and>
   by_profile True [''m''] [example_partial_record] ''expert'' = (1, 1) \<and>
   by_category True [''m''] [example_partial_record] ''difficulty'' (JStr ''hard'') = Inr (Some (1, 1)) \<and>
   total_counts True [''m''] [example_missing_record] = (1, 1) \<and>
   by_model True [''m''] [example_missing_record] ''m'' = (1, 1) \<and>
   by_profile True [''m''] [example_missing_record] ''expert'' = (1, 1) \<and>
   by_category True [''m''] [example_missing_record] ''difficulty'' (JStr ''hard'') = Inr (Some (1, 1)) \<and>
   model_answer (eval_single_model silent_model ''which one?'' [] example_question ''m'') = [] \<and>
   extracted_answer (eval_single_model silent_model ''which one?'' [] example_question ''m'') = [] \<and>
   error (eval_single_model silent_model ''which one?'' [] example_question ''m'') = None \<and>
   raw_count False example_blank_result ''expert'' ''m'' = (1, 0) \<and>
   raw_count True example_blank_result ''expert'' ''m'' = (1, 0) \<and>
   profile_model_stats False [example_blank_result] ''expert'' ''m'' = (1, 0) \<and>
   convert_to_module2_format (\<lambda>a raw. a) example_blank_result ''m'' ''expert'' =
     Some (example_blank_record, 0) \<and>
   total_counts False [''m''] [example_blank_record] = (0, 0) \<and>
   by_model False [''m''] [example_blank_record] ''m'' = (0, 0) \<and>
   by_profile False [''m''] [example_blank_record] ''expert'' = (0, 0)"
proof -
  have p0: "answer_blank (map_of [(''round1'', JStr ''A''), (''round2'', JStr [])] ''round2'')"
    "answer example_partial_entry = Some (JDict [(''round1'', JStr ''A''), (''round2'', JStr [])])"
    by (simp_all add: answer_blank_def example_partial_entry_def)
  have p1: "total_counts False [''m''] [example_partial_record] = (0, 0)" by code_simp
  have p2: "by_model False [''m''] [example_partial_record] ''m'' = (1, 0)" by code_simp
  have p3: "by_profile False [''m''] [example_partial_record] ''expert'' = (1, 0)" by code_simp
  have p4: "by_category False [''m''] [example_partial_record] ''difficulty'' (JStr ''hard'') =
              Inr (Some (1, 0))" by code_simp
  have m0: "answer_blank (map_of [(''round1'', JStr ''A'')] ''round2'')"
    "answer example_missing_entry = Some (JDict [(''round1'', JStr ''A'')])"
    by (simp_all add: answer_blank_def example_missing_entry_def)
  have m1: "total_counts False [''m''] [example_missing_record] = (1, 0)" by code_simp
  have m2: "by_model False [''m''] [example_missing_record] ''m'' = (1, 0)" by code_simp
  have m3: "by_profile False [''m''] [example_missing_record] ''expert'' = (1, 0)" by code_simp
  have m4: "by_category False [''m''] [example_missing_record] ''difficulty'' (JStr ''hard'') =
              Inr (Some (1, 0))" by code_simp
  have r1: "total_counts True [''m''] [example_partial_record] = (1, 1)" by code_simp
  have r2: "by_model True [''m''] [example_partial_record] ''m'' = (1, 1)" by code_simp
  have r3: "by_profile True [''m''] [example_partial_record] ''expert'' = (1, 1)" by code_simp
  have r4: "by_category True [''m''] [example_partial_record] ''difficulty'' (JStr ''hard'') =
              Inr (Some (1, 1))" by code_simp
  have n1: "total_counts True [''m''] [example_missing_record] = (1, 1)" by code_simp
  have n2: "by_model True [''m''] [example_missing_record] ''m'' = (1, 1)" by code_simp
  have n3: "by_profile True [''m''] [example_missing_record] ''expert'' = (1, 1)" by code_simp
  have n4: "by_category True [''m''] [example_missing_record] ''difficulty'' (JStr ''hard'') =
              Inr (Some (1, 1))" by code_simp
  have e: "eval_single_model silent_model ''which one?'' [] example_question ''m'' =
      \<lparr> rr_model_name = ''m'', error = None, is_correct = False, model_answer = [],
        extracted_answer = [], answer_for_judge = [], reasoning = Some ''no answer'',
        rr_response_time = 1, judge_time = 1, raw_response = Some JNull,
        rr_conversation_history = None \<rparr>"
    by (simp add: eval_single_model_def silent_model_def Let_def)
  have s1: "raw_count False example_blank_result ''expert'' ''m'' = (1, 0)"
    "raw_count True example_blank_result ''expert'' ''m'' = (1, 0)"
    by (simp_all add: raw_count_def example_blank_result_def e md_rounds_def)
  have s2: "profile_model_stats False [example_blank_result] ''expert'' ''m'' = (1, 0)"
    by (simp add: profile_model_stats_def s1 add_counts_def)
  have s3: "convert_to_module2_format (\<lambda>a raw. a) example_blank_result ''m'' ''expert'' =
     Some (example_blank_record, 0)" by code_simp
  have o1: "total_counts False [''m''] [example_blank_record] = (0, 0)" by code_simp
  have o2: "by_model False [''m''] [example_blank_record] ''m'' = (0, 0)" by code_simp
  have o3: "by_profile False [''m''] [example_blank_record] ''expert'' = (0, 0)" by code_simp
  show ?thesis
    unfolding e using p0 p1 p2 p3 p4 m0 m1 m2 m3 m4 r1 r2 r3 r4 n1 n2 n3 n4 s1 s2 s3 o1 o2 o3
    by simp
qed

text \<open>
  C4. A single-round evaluation whose judge raises after its retries is stored with
  is_correct = False, and calculate_statistics counts it in the denominator of its
  model as an incorrect answer. A two-round item whose second round failed is converted
  to a record that the whole-item mode of calculate_output_statistics counts as one
  incorrect item in the per-model and per-profile breakdowns, while the overall total
  leaves it out.
\<close>

theorem C4_failed_unit_scored_incorrect:
  "eval_single_model judge_down ''which one?'' [] example_question ''m'' =
     error_result ''m'' ''judge unavailable'' \<and>
   raw_count False example_failed_result ''expert'' ''m'' = (1, 0) \<and>
   profile_model_stats False [example_failed_result] ''expert'' ''m'' = (1, 0) \<and>
   convert_to_module2_format (\<lambda>a raw. a) example_half_failed_result ''m'' ''expert'' =
     Some (example_half_failed_record, 0) \<and>
   by_model False [''m''] [example_half_failed_record] ''m'' = (1, 0) \<and>
   by_profile False [''m''] [example_half_failed_record] ''expert'' = (1, 0) \<and>
   total_counts False [''m''] [example_half_failed_record] = (0, 0)"
proof -
  have r: "raw_count False example_failed_result ''expert'' ''m'' = (1, 0)"
    by (simp add: raw_count_def example_failed_result_def example_failed_eval error_result_def)
  have p: "profile_model_stats False [example_failed_result] ''expert'' ''m'' = (1, 0)"
    by (simp add: profile_model_stats_def r add_counts_def)
  show ?thesis
    using r p example_failed_eval example_half_failed_convert example_half_failed_counts
    by simp
qed

text \<open>
  C7. For a multi-round entry whose rounds all carry a non-blank answer text, whole-item
  scoring counts one unit that is correct exactly when every round's verdict is true,
  and per-round scoring counts one unit per round, each correct exactly when its own
  verdict is true. The converter's agreement flag is 1 exactly when every verdict of
  the map is true. The task executor's summary of a model holds one round item for
  every round that has a stored result, built from that result, and its whole-task
  verdict is the conjunction of the verdicts stored for these rounds; after the
  multi-round loop every round has a stored result for every enabled model, so the
  summary has one item per round, in round order.
\<close>

theorem C7_round_aggregation:
  assumes "match_gt en = Some (JDict mg)" and "answer en = Some (JDict ad)" and "mg \<noteq> []"
    and "\<forall>(k, c) \<in> set mg. \<exists>s. map_of ad k = Some (JStr s) \<and> strip s \<noteq> []"
  shows "count_item False it key en n = (1, if list_all (\<lambda>(k, c). truthy c) mg then 1 else 0) \<and>
         count_item True it key en n = (length mg, length (filter (\<lambda>(k, c). truthy c) mg)) \<and>
         agreement_with_gt True (JDict mg) = (if list_all (\<lambda>(k, c). truthy c) mg then 1 else 0) \<and>
         rounds (summarize_model st qs mn) =
           concat (map (\<lambda>q. case stored st (round_key q) mn of
                              None \<Rightarrow> [] | Some r \<Rightarrow> [make_round_item q r]) qs) \<and>
         mr_is_correct (summarize_model st qs mn) =
           list_all (\<lambda>q. case stored st (round_key q) mn of
                           None \<Rightarrow> True | Some r \<Rightarrow> is_correct r) qs \<and>
         mr_is_correct (summarize_model st qs mn) =
           list_all is_correct (rounds (summarize_model st qs mn)) \<and>
         (mn \<in> set ms \<longrightarrow>
            map round_name (rounds (summarize_model (run_rounds col prof ps qs ms) qs mn)) =
              map round_key qs)"
proof -
  obtain k c rest where mg: "mg = (k, c) # rest" using assms(3) by (cases mg) auto
  with assms(4) obtain s where "map_of ad k = Some (JStr s)" and s: "strip s \<noteq> []" by auto
  then have "(k, JStr s) \<in> set ad" by (auto dest: map_of_SomeD)
  then have h: "has_any_answer ad" using s by (rule has_any_answer_mem)
  have w: "count_item False it key en n = (1, if list_all (\<lambda>(k, c). truthy c) mg then 1 else 0)"
    using assms(1-3) h by (simp add: count_item_def all_values_def)
  have p: "count_item True it key en n = (length mg, length (filter (\<lambda>(k, c). truthy c) mg))"
    using assms(1,2) count_rounds_answered[OF assms(4)] by (simp add: count_item_def)
  have a: "agreement_with_gt True (JDict mg) = (if list_all (\<lambda>(k, c). truthy c) mg then 1 else 0)"
    using assms(3) by (simp add: agreement_with_gt_def all_values_def)
  show ?thesis
    using w p a summarize_model_all[of st qs mn] summarize_model_stored[of st qs mn]
      summarize_model_run_names[of mn ms col prof ps qs]
    by simp
qed

theorem C7_round_aggregation_witness:
  "match_gt three_round_entry =
     Some (JDict [(''round1'', JBool True), (''round2'', JBool False), (''round3'', JBool True)]) \<and>
   answer three_round_entry =
     Some (JDict [(''round1'', JStr ''A''), (''round2'', JStr ''C''), (''round3'', JStr ''A'')]) \<and>
   count_item False example_answered_record ''model'' three_round_entry (Some ''m'') = (1, 0) \<and>
   count_item True example_answered_record ''model'' three_round_entry (Some ''m'') = (3, 2) \<and>
   agreement_with_gt True
     (JDict [(''round1'', JBool True), (''round2'', JBool False), (''round3'', JBool True)]) = 0 \<and>
   count_item False example_answered_record ''model'' three_true_entry (Some ''m'') = (1, 1) \<and>
   count_item True example_answered_record ''model'' three_true_entry (Some ''m'') = (3, 3) \<and>
   agreement_with_gt True
     (JDict [(''round1'', JBool True), (''round2'', JBool True), (''round3'', JBool True)]) = 1 \<and>
   map round_name (rounds (summarize_model
       (run_rounds judge_fine ''expert'' [] [example_question, example_second_question] [''m''])
       [example_question, example_second_question] ''m'')) = [''round1'', ''round2''] \<and>
   map is_correct (rounds (summarize_model
       (run_rounds judge_fine ''expert'' [] [example_question, example_second_question] [''m''])
       [example_question, example_second_question] ''m'')) = [True, True] \<and>
   mr_is_correct (summarize_model
       (run_rounds judge_fine ''expert'' [] [example_question, example_second_question] [''m''])
       [example_question, example_second_question] ''m'') \<and>
   map is_correct (rounds (summarize_model
       (run_rounds judge_down_later ''expert'' [] [example_question, example_second_question] [''m''])
       [example_question, example_second_question] ''m'')) = [True, False] \<and>
   \<not> mr_is_correct (summarize_model
       (run_rounds judge_down_later ''expert'' [] [example_question, example_second_question] [''m''])
       [example_question, example_second_question] ''m'')"
proof -
  have m: "match_gt three_round_entry =
     Some (JDict [(''round1'', JBool True), (''round2'', JBool False), (''round3'', JBool True)])"
    and a: "answer three_round_entry =
     Some (JDict [(''round1'', JStr ''A''), (''round2'', JStr ''C''), (''round3'', JStr ''A'')])"
    by (simp_all add: three_round_entry_def)
  have m2: "match_gt three_true_entry =
     Some (JDict [(''round1'', JBool True), (''round2'', JBool True), (''round3'', JBool True)])"
    and a2: "answer three_true_entry =
     Some (JDict [(''round1'', JStr ''A''), (''round2'', JStr ''C''), (''round3'', JStr ''A'')])"
    by (simp_all add: three_true_entry_def)
  have ne: "[(''round1'', JBool True), (''round2'', JBool False), (''round3'', JBool True)] \<noteq> []"
    and ne2: "[(''round1'', JBool True), (''round2'', JBool True), (''round3'', JBool True)] \<noteq> []"
    by simp_all
  have ans: "\<forall>(k, c) \<in> set [(''round1'', JBool True), (''round2'', JBool False), (''round3'', JBool True)].
               \<exists>s. map_of [(''round1'', JStr ''A''), (''round2'', JStr ''C''), (''round3'', JStr ''A'')] k
                      = Some (JStr s) \<and> strip s \<noteq> []"
    and ans2: "\<forall>(k, c) \<in> set [(''round1'', JBool True), (''round2'', JBool True), (''round3'', JBool True)].
               \<exists>s. map_of [(''round1'', JStr ''A''), (''round2'', JStr ''C''), (''round3'', JStr ''A'')] k
                      = Some (JStr s) \<and> strip s \<noteq> []"
    by simp_all
  have k: "map round_key [example_question, example_second_question] = [''round1'', ''round2'']"
    by (simp add: example_question_def example_second_question_def)
  have v1: "map is_correct (rounds (summarize_model
       (run_rounds judge_fine ''expert'' [] [example_question, example_second_question] [''m''])
       [example_question, example_second_question] ''m'')) = [True, True]"
    by code_simp
  have v2: "map is_correct (rounds (summarize_model
       (run_rounds judge_down_later ''expert'' [] [example_question, example_second_question] [''m''])
       [example_question, example_second_question] ''m'')) = [True, False]"
    by code_simp
  note t1 = C7_round_aggregation[OF m a ne ans, where it = example_answered_record and key = "''model''"
      and n = "Some ''m''" and mn = "''m''" and ms = "[''m'']" and col = judge_fine and prof = "''expert''"
      and ps = "[]" and qs = "[example_question, example_second_question]"
      and st = "run_rounds judge_fine ''expert'' [] [example_question, example_second_question] [''m'']"]
  note t2 = C7_round_aggregation[OF m2 a2 ne2 ans2, where it = example_answered_record and key = "''model''"
      and n = "Some ''m''" and mn = "''m''" and ms = "[''m'']" and col = judge_down_later
      and prof = "''expert''" and ps = "[]" and qs = "[example_question, example_second_question]"
      and st = "run_rounds judge_down_later ''expert'' [] [example_question, example_second_question] [''m'']"]
  have w1: "mr_is_correct (summarize_model
       (run_rounds judge_fine ''expert'' [] [example_question, example_second_question] [''m''])
       [example_question, example_second_question] ''m'')"
    by code_simp
  have w2: "\<not> mr_is_correct (summarize_model
       (run_rounds judge_down_later ''expert'' [] [example_question, example_second_question] [''m''])
       [example_question, example_second_question] ''m'')"
    by code_simp
  from t1[THEN conjunct1] have p1:
    "count_item False example_answered_record ''model'' three_round_entry (Some ''m'') = (1, 0)"
    by simp
  from t1[THEN conjunct2, THEN conjunct1] have p2:
    "count_item True example_answered_record ''model'' three_round_entry (Some ''m'') = (3, 2)"
    by simp
  from t1[THEN conjunct2, THEN conjunct2, THEN conjunct1] have p3:
    "agreement_with_gt True
       (JDict [(''round1'', JBool True), (''round2'', JBool False), (''round3'', JBool True)]) = 0"
    by simp
  from t2[THEN conjunct1] have q1:
    "count_item False example_answered_record ''model'' three_true_entry (Some ''m'') = (1, 1)"
    by simp
  from t2[THEN conjunct2, THEN conjunct1] have q2:
    "count_item True example_answered_record ''model'' three_true_entry (Some ''m'') = (3, 3)"
    by simp
  from t2[THEN conjunct2, THEN conjunct2, THEN conjunct1] have q3:
    "agreement_with_gt True
       (JDict [(''round1'', JBool True), (''round2'', JBool True), (''round3'', JBool True)]) = 1"
    by simp
  from t1[THEN conjunct2, THEN conjunct2, THEN conjunct2, THEN conjunct2, THEN conjunct2,
      THEN conjunct2]
  have n1: "map round_name (rounds (summarize_model
       (run_rounds judge_fine ''expert'' [] [example_question, example_second_question] [''m''])
       [example_question, example_second_question] ''m'')) = [''round1'', ''round2'']"
    unfolding k by simp
  show ?thesis
    using m a p1 p2 p3 q1 q2 q3 n1 v1 v2 w1 w2 by simp
qed



text \<open>
  C9. Within one task's conversation media appear in at most one turn, whatever the
  number of rounds. With the image paths that passed the check of the item, every
  message list handed to the model, in every round and for every model, has at most one
  turn with media, none after its first turn, and when the item has image paths its
  first turn is a user turn carrying them; every compacted history kept between the
  rounds has at most one turn with media, and none after its first turn.
\<close>

theorem C9_media_attached_once:
  assumes "check_images (file_exists c) skip_missing_images paths = Inr image_paths"
  shows "list_all (\<lambda>(mn, msgs). media_first_only msgs \<and> (image_paths \<noteq> [] \<longrightarrow> has_image (hd msgs)))
           (requests (run_rounds c prof image_paths qs ms)) \<and>
         list_all (\<lambda>(mn, h). media_first_only h)
           (conversation_history (run_rounds c prof image_paths qs ms))"
proof -
  have "media_inv image_paths (run_rounds c prof image_paths qs ms)"
    by (rule run_rounds_media_inv[OF check_images_attachable[OF assms]])
  then show ?thesis
    by (auto simp: media_inv_def list_all_iff hist_ok_media_first_only)
qed

theorem C9_media_attached_once_witness:
  "check_images (file_exists judge_down) False [''chart.png''] = Inr [''chart.png''] \<and>
   list_all (\<lambda>(mn, msgs). media_first_only msgs \<and> has_image (hd msgs))
     (requests (run_rounds judge_down ''expert'' [''chart.png'']
                  [example_question, example_second_question] [''m''])) \<and>
   list_all (\<lambda>(mn, h). media_first_only h)
     (conversation_history (run_rounds judge_down ''expert'' [''chart.png'']
                  [example_question, example_second_question] [''m''])) \<and>
   map (\<lambda>(mn, msgs). map carries_image msgs)
     (requests (run_rounds judge_down ''expert'' [''chart.png'']
                  [example_question, example_second_question] [''m''])) =
     [[True, False, False], [True]]"
proof -
  have c: "check_images (file_exists judge_down) False [''chart.png''] = Inr [''chart.png'']"
    by (simp add: check_images_def judge_down_def is_http_def)
  have n: "map (\<lambda>(mn, msgs). map carries_image msgs)
     (requests (run_rounds judge_down ''expert'' [''chart.png'']
                  [example_question, example_second_question] [''m''])) =
     [[True, False, False], [True]]"
    by code_simp
  from C9_media_attached_once[OF c, of "''expert''" "[example_question, example_second_question]" "[''m'']"]
  show ?thesis using c n by simp
qed

text \<open>
  C3. Every rewrite of an output artifact goes through a temporary sibling path and an
  atomic replacement. The temporary path differs from the target and lies in the same
  directory. In a flush of a non-empty buffer and in the final update of the
  statistics, the target holds, after every step and at the end, either its original
  content or the complete new document, and the new document only when both the write
  of the temporary file and the replacement succeeded. When the write or the
  replacement fails, or the stored document cannot be read, the target keeps its
  original content, the buffers are unchanged and the error log has grown; after a
  successful flush the temporary file is gone and the buffer of the key is empty.
\<close>

theorem C3_atomic_rewrite:
  assumes b: "result_buffers st (mn, prof) = Some buffer" and ne: "buffer \<noteq> []"
    and o: "output_files (mn, prof) = Some p"
  shows "parent (temp_file_of p) = parent p \<and> temp_file_of p \<noteq> p \<and>
    (\<exists>st' steps. flush_json_buffer sys cd mn prof output_files st = Inr (st', steps) \<and>
     list_all (\<lambda>f. f p = files st p \<or>
                    (on_write sys = Written \<and> on_replace sys \<and>
                     (\<exists>d. merged_document cd (files st p) buffer = Inr d \<and> f p = Some (json_dump cd d))))
              (steps @ [files st']) \<and>
     (if on_write sys = Written \<and> on_replace sys \<and> (\<exists>d. merged_document cd (files st p) buffer = Inr d)
      then (\<exists>d. merged_document cd (files st p) buffer = Inr d \<and>
                files st' p = Some (json_dump cd d) \<and> files st' (temp_file_of p) = None) \<and>
           result_buffers st' = (result_buffers st)((mn, prof) \<mapsto> []) \<and>
           error_log st' = error_log st
      else files st' p = files st p \<and> result_buffers st' = result_buffers st \<and>
           length (error_log st) < length (error_log st'))) \<and>
    (\<exists>st' steps. update_statistics sys cd jsonl p st = (st', steps) \<and>
       list_all (\<lambda>f. f p = files st p \<or>
                    (on_write sys = Written \<and> on_replace sys \<and>
                     (\<exists>data. final_replacement cd jsonl (files st p) = Replace data \<and> f p = Some data)))
                (steps @ [files st']) \<and>
       result_buffers st' = result_buffers st \<and>
       (if on_write sys = Written \<and> on_replace sys \<and>
           (\<exists>data. final_replacement cd jsonl (files st p) = Replace data)
        then (\<exists>data. final_replacement cd jsonl (files st p) = Replace data \<and>
                files st' p = Some data \<and> files st' (temp_file_of p) = None) \<and>
             error_log st' = error_log st
        else files st' p = files st p \<and>
             (final_replacement cd jsonl (files st p) = Skip \<and> error_log st' = error_log st \<or>
              length (error_log st) < length (error_log st'))))"
proof -
  have flush: "\<exists>st' steps. flush_json_buffer sys cd mn prof output_files st = Inr (st', steps) \<and>
     list_all (\<lambda>f. f p = files st p \<or>
                    (on_write sys = Written \<and> on_replace sys \<and>
                     (\<exists>d. merged_document cd (files st p) buffer = Inr d \<and> f p = Some (json_dump cd d))))
              (steps @ [files st']) \<and>
     (if on_write sys = Written \<and> on_replace sys \<and> (\<exists>d. merged_document cd (files st p) buffer = Inr d)
      then (\<exists>d. merged_document cd (files st p) buffer = Inr d \<and>
                files st' p = Some (json_dump cd d) \<and> files st' (temp_file_of p) = None) \<and>
           result_buffers st' = (result_buffers st)((mn, prof) \<mapsto> []) \<and>
           error_log st' = error_log st
      else files st' p = files st p \<and> result_buffers st' = result_buffers st \<and>
           length (error_log st) < length (error_log st'))"
  proof (cases "merged_document cd (files st p) buffer")
    case (Inl e)
    show ?thesis
      unfolding flush_json_buffer_unreadable[where output_files = output_files, OF b ne o Inl] using Inl by simp
  next
    case (Inr d)
    let ?aw = "atomic_write sys p (json_dump cd d) (files st)"
    have obs: "list_all (\<lambda>f. f p = files st p \<or> on_write sys = Written \<and> on_replace sys \<and>
                     f p = Some (json_dump cd d)) (snd ?aw)"
      unfolding list_all_iff using atomic_write_observed[of _ sys p "json_dump cd d" "files st"] by blast
    have lst: "last (snd ?aw) \<in> set (snd ?aw)"
      by (rule last_in_set[OF atomic_write_nonempty])
    have obs_last: "last (snd ?aw) p = files st p \<or> on_write sys = Written \<and> on_replace sys \<and>
                     last (snd ?aw) p = Some (json_dump cd d)"
      by (rule atomic_write_observed[OF lst])
    show ?thesis
    proof (cases "fst ?aw")
      case True
      note s = atomic_write_success[OF True]
      show ?thesis
        unfolding flush_json_buffer_write[where output_files = output_files, OF b ne o Inr] using Inr True s obs by simp
    next
      case False
      note f = atomic_write_failure[OF False]
      have "\<not> (on_write sys = Written \<and> on_replace sys)"
        using False by (simp add: atomic_write_done)
      then show ?thesis
        unfolding flush_json_buffer_write[where output_files = output_files, OF b ne o Inr] using Inr False f obs by auto
    qed
  qed
  have upd: "\<exists>st' steps. update_statistics sys cd jsonl p st = (st', steps) \<and>
       list_all (\<lambda>f. f p = files st p \<or>
                    (on_write sys = Written \<and> on_replace sys \<and>
                     (\<exists>data. final_replacement cd jsonl (files st p) = Replace data \<and> f p = Some data)))
                (steps @ [files st']) \<and>
       result_buffers st' = result_buffers st \<and>
       (if on_write sys = Written \<and> on_replace sys \<and>
           (\<exists>data. final_replacement cd jsonl (files st p) = Replace data)
        then (\<exists>data. final_replacement cd jsonl (files st p) = Replace data \<and>
                files st' p = Some data \<and> files st' (temp_file_of p) = None) \<and>
             error_log st' = error_log st
        else files st' p = files st p \<and>
             (final_replacement cd jsonl (files st p) = Skip \<and> error_log st' = error_log st \<or>
              length (error_log st) < length (error_log st')))"
  proof (cases "final_replacement cd jsonl (files st p)")
    case (Raise e)
    then show ?thesis by (simp add: update_statistics_def)
  next
    case Skip
    then show ?thesis by (simp add: update_statistics_def)
  next
    case (Replace data)
    let ?aw = "atomic_write sys p data (files st)"
    have obs: "list_all (\<lambda>f. f p = files st p \<or> on_write sys = Written \<and> on_replace sys \<and>
                     f p = Some data) (snd ?aw)"
      unfolding list_all_iff using atomic_write_observed[of _ sys p data "files st"] by blast
    show ?thesis
    proof (cases "fst ?aw")
      case True
      note s = atomic_write_success[OF True]
      show ?thesis
        unfolding update_statistics_write[OF Replace] using Replace True s obs by simp
    next
      case False
      note f = atomic_write_failure[OF False]
      have "\<not> (on_write sys = Written \<and> on_replace sys)"
        using False by (simp add: atomic_write_done)
      then show ?thesis
        unfolding update_statistics_write[OF Replace] using Replace False f obs by auto
    qed
  qed
  show ?thesis
    using flush upd temp_file_sibling[of p] temp_file_differs(1)[of p] by blast
qed

theorem C3_atomic_rewrite_witness:
  "result_buffers example_state (''m'', ''expert'') = Some [JStr ''r2''] \<and>
   (case flush_json_buffer disk_full example_codec ''m'' ''expert'' (\<lambda>key. Some ''out.json'')
           example_state of
      Inl e \<Rightarrow> False
    | Inr (st', steps) \<Rightarrow>
        map (\<lambda>f. (f ''out.json'', f ''out.json.tmp'')) steps =
          [(Some ''old'', Some ''resul''), (Some ''old'', None)] \<and>
        files st' ''out.json'' = Some ''old'' \<and>
        result_buffers st' (''m'', ''expert'') = Some [JStr ''r2''] \<and>
        error_log st' = [''writing the temporary file failed'', ''batch save failed'']) \<and>
   (case flush_json_buffer disk_fine example_codec ''m'' ''expert'' (\<lambda>key. Some ''out.json'')
           example_state of
      Inl e \<Rightarrow> False
    | Inr (st', steps) \<Rightarrow>
        map (\<lambda>f. (f ''out.json'', f ''out.json.tmp'')) steps =
          [(Some ''old'', Some ''results:r1r2''), (Some ''results:r1r2'', None)] \<and>
        files st' ''out.json'' = Some ''results:r1r2'' \<and>
        result_buffers st' (''m'', ''expert'') = Some [] \<and>
        error_log st' = [])"
  using C3_atomic_rewrite[of example_state "''m''" "''expert''" "[JStr ''r2'']"
      "\<lambda>key. Some ''out.json''" "''out.json''" disk_full example_codec False]
  by (simp add: flush_json_buffer_def merged_document_def atomic_write_def write_file_def
      temp_file_of_def dict_get_def example_state_def example_codec_def disk_full_def
      disk_fine_def Let_def)

end
